theory Spec2Isabelle
  imports Main "HOL-Library.Sublist" "HOL-Library.AList" "HOL-Library.Extended_Nat"
    "HOL-Library.Product_Lexorder"
begin

section \<open>Python strings\<close>

text \<open>
  The script \<^verbatim>\<open>make_publications.py\<close> works on Python \<^verbatim>\<open>str\<close> values, which are
  sequences of Unicode code points. A \<^typ>\<open>char\<close> of this development stands for one code
  point in the range U+0000 .. U+00FF (\<open>CHR 0xC6\<close> is the letter AE, not a byte of its UTF-8
  encoding), so \<^typ>\<open>string\<close> covers every Python string over that range. Every character
  the script itself writes lies in this range.
\<close>

abbreviation backslash :: char where "backslash \<equiv> CHR 0x5C"
abbreviation dquote :: char where "dquote \<equiv> CHR 0x22"
abbreviation squote :: char where "squote \<equiv> CHR 0x27"

text \<open>
  The characters \<^verbatim>\<open>str.strip()\<close> removes: the code points below U+0100 for which
  \<^verbatim>\<open>str.isspace()\<close> holds (tab, line feed, vertical tab, form feed, carriage return, the
  four separators U+001C .. U+001F, space, next line U+0085, no-break space U+00A0).
\<close>

definition isspace :: "char \<Rightarrow> bool" where
  "isspace c = (c \<in> set [CHR 0x09, CHR 0x0A, CHR 0x0B, CHR 0x0C, CHR 0x0D, CHR 0x1C,
                           CHR 0x1D, CHR 0x1E, CHR 0x1F, CHR 0x20, CHR 0x85, CHR 0xA0])"

text \<open>\<^verbatim>\<open>s.strip()\<close>: leading and trailing whitespace removed.\<close>

definition str_strip :: "string \<Rightarrow> string" where
  "str_strip s = rev (dropWhile isspace (rev (dropWhile isspace s)))"

text \<open>
  \<^verbatim>\<open>s.replace(old, new)\<close>: the occurrences of \<open>old\<close> are found from left to right, without
  overlap, and each is replaced by \<open>new\<close>. With an empty \<open>old\<close> Python puts \<open>new\<close> before
  every character and at the end.
\<close>

fun str_replace :: "string \<Rightarrow> string \<Rightarrow> string \<Rightarrow> string" where
  "str_replace old new [] = (if old = [] then new else [])"
| "str_replace old new (c # cs) =
     (if old = [] then new @ c # str_replace old new cs
      else if prefix old (c # cs) then new @ str_replace old new (drop (length old - 1) cs)
      else c # str_replace old new cs)"

text \<open>
  \<^verbatim>\<open>s.split(sep)\<close> for a non-empty separator (Python raises \<^verbatim>\<open>ValueError\<close> on an empty
  one; the script passes only the literals \<^verbatim>\<open>" and "\<close> and \<^verbatim>\<open>"&nbsp;"\<close>). The result is
  never the empty list; the first case branch below is there for totality only.
\<close>

fun str_split :: "string \<Rightarrow> string \<Rightarrow> string list" where
  "str_split sep [] = [[]]"
| "str_split sep (c # cs) =
     (if prefix sep (c # cs) then [] # str_split sep (drop (length sep - 1) cs)
      else (case str_split sep cs of [] \<Rightarrow> [[c]] | p # ps \<Rightarrow> (c # p) # ps))"

text \<open>\<^verbatim>\<open>sep.join(xs)\<close>.\<close>

fun str_join :: "string \<Rightarrow> string list \<Rightarrow> string" where
  "str_join sep [] = []"
| "str_join sep [x] = x"
| "str_join sep (x # y # ys) = x @ sep @ str_join sep (y # ys)"

text \<open>\<^verbatim>\<open>s.find(sub)\<close>: the index of the first occurrence of \<open>sub\<close>, or \<open>-1\<close>.\<close>

fun str_find :: "string \<Rightarrow> string \<Rightarrow> int" where
  "str_find sub [] = (if sub = [] then 0 else - 1)"
| "str_find sub (c # cs) =
     (if prefix sub (c # cs) then 0
      else (let r = str_find sub cs in if r < 0 then - 1 else r + 1))"

text \<open>
  \<^verbatim>\<open>s.isdigit()\<close>: the string is not empty and each character is a digit. Below U+0100 the
  digits are \<^verbatim>\<open>0\<close> .. \<^verbatim>\<open>9\<close> and the superscripts two (U+00B2), three (U+00B3) and one
  (U+00B9), which Unicode classes as digits without a decimal value.
\<close>

definition is_decimal_char :: "char \<Rightarrow> bool" where
  "is_decimal_char c = (c \<in> set ''0123456789'')"

definition is_digit_char :: "char \<Rightarrow> bool" where
  "is_digit_char c = (is_decimal_char c \<or> c \<in> set [CHR 0xB2, CHR 0xB3, CHR 0xB9])"

definition str_isdigit :: "string \<Rightarrow> bool" where
  "str_isdigit s = (s \<noteq> [] \<and> list_all is_digit_char s)"

section \<open>Errors\<close>

text \<open>
  The exceptions the script's functions can raise: a lookup \<^verbatim>\<open>entry[k]\<close> of an absent key
  raises \<^verbatim>\<open>KeyError(k)\<close>, and \<^verbatim>\<open>int(s)\<close> raises \<^verbatim>\<open>ValueError\<close> on a string that is not a
  decimal numeral. A function that can raise returns \<open>error + 'a\<close>, with \<open>Inl\<close> the exception.
\<close>

datatype error = KeyError string | ValueError

text \<open>
  One statement after another: the first exception ends the computation, as nothing in the
  script catches one.
\<close>

definition and_then :: "error + 'a \<Rightarrow> ('a \<Rightarrow> error + 'b) \<Rightarrow> error + 'b" where
  "and_then r f = (case r of Inl err \<Rightarrow> Inl err | Inr x \<Rightarrow> f x)"

section \<open>Entries\<close>

text \<open>
  A bibliography entry is a Python \<^verbatim>\<open>dict\<close> from field names to strings, as
  \<^verbatim>\<open>bibtexparser\<close> produces it. It is modelled as the list of its items in the dictionary's
  iteration order; a dictionary holds each key once, so the keys of an entry are distinct.
\<close>

type_synonym entry = "(string \<times> string) list"

text \<open>\<^verbatim>\<open>k in entry\<close> and \<^verbatim>\<open>entry[k]\<close>.\<close>

definition has :: "entry \<Rightarrow> string \<Rightarrow> bool" where
  "has entry k = (map_of entry k \<noteq> None)"

definition lookup :: "entry \<Rightarrow> string \<Rightarrow> error + string" where
  "lookup entry k = (case map_of entry k of None \<Rightarrow> Inl (KeyError k) | Some v \<Rightarrow> Inr v)"

section \<open>The field cleaner\<close>

text \<open>The block under \<^verbatim>\<open># replace special characters\<close>, up to the blank line.\<close>

definition replace_special :: "string \<Rightarrow> string" where
  "replace_special v0 =
    (let v = str_replace (backslash # ''AE'') [CHR 0xC6] v0;
         v = str_replace [backslash, CHR ''$'', backslash, CHR ''$''] '' '' v;
         v = str_replace ''~'' '' '' v;
         v = str_replace (backslash # ''O'') [CHR 0xD8] v;
         v = str_replace (backslash # ''AA'') [CHR 0xC5] v;
         v = str_replace (backslash # ''ae'') [CHR 0xE6] v;
         v = str_replace (backslash # ''o'') [CHR 0xF8] v;
         v = str_replace (backslash # dquote # ''o'') [CHR 0xF6] v;
         v = str_replace (backslash # dquote # ''a'') [CHR 0xE4] v;
         v = str_replace (backslash # ''aa'') [CHR 0xE5] v;
         v = str_replace (backslash # squote # ''a'') ''&aacute;'' v;
         v = str_replace (backslash # squote # ''c'') ''&cacute;'' v;
         v = str_replace (backslash # squote # ''o'') ''&oacute;'' v;
         v = str_replace (backslash # squote # ''e'') ''&eacute;'' v;
         v = str_replace (backslash # ''c{c}'') ''&ccedil;'' v
     in v)"

text \<open>The three replacements by the empty string that follow it.\<close>

definition strip_delimiters :: "string \<Rightarrow> string" where
  "strip_delimiters v0 =
    (let v = str_replace ''{'' [] v0;
         v = str_replace ''}'' [] v;
         v = str_replace [dquote] [] v
     in v)"

text \<open>
  The block under \<^verbatim>\<open># remove trailing comma and dot\<close>: \<^verbatim>\<open>v[-1]\<close> is the last character and
  \<^verbatim>\<open>v[:-1]\<close> the string without it. (Only a comma is removed, whatever the comment says.)
\<close>

definition remove_trailing_comma :: "string \<Rightarrow> string" where
  "remove_trailing_comma v =
    (if length v > 0 then (if last v = CHR '','' then butlast v else v) else v)"

text \<open>
  The body of the loop under \<^verbatim>\<open># reverse first and surname\<close>: the new value of
  \<^verbatim>\<open>authors[i]\<close> from its old value \<open>a\<close>. \<^verbatim>\<open>namearray[0]\<close> cannot fail, as a split is never
  empty, and \<^verbatim>\<open>namearray[1:]\<close> is the rest of the list.
\<close>

definition reverse_name :: "string \<Rightarrow> string" where
  "reverse_name a =
    (case str_split ''&nbsp;'' a of
       [] \<Rightarrow> a
     | surname # rest \<Rightarrow>
         if str_find '','' surname \<ge> 0
         then (let surname' = str_replace '','' [] surname;
                   firstname = str_join '' '' rest
               in firstname @ '' '' @ surname')
         else str_join '' '' (surname # rest))"

text \<open>
  The loop \<^verbatim>\<open>for i, a in enumerate(authors)\<close>, which assigns to \<^verbatim>\<open>authors[i]\<close> while it
  walks the list: \<open>i\<close> is the index the loop has reached.
\<close>

function reverse_names :: "nat \<Rightarrow> string list \<Rightarrow> string list" where
  "reverse_names i authors =
    (if i < length authors
     then reverse_names (Suc i) (authors[i := reverse_name (authors ! i)])
     else authors)"
  by pat_completeness auto
termination
  by (relation "measure (\<lambda>(i, authors). length authors - i)") auto

declare reverse_names.simps [simp del]

text \<open>The block under \<^verbatim>\<open># fix author\<close>.\<close>

definition fix_author :: "string \<Rightarrow> string" where
  "fix_author v =
    (let authors = str_split '' and '' v;
         authors = map str_strip authors;
         authors = map (str_replace '' '' ''&nbsp;'') authors;
         authors = reverse_names 0 authors
     in str_join '', '' authors)"

text \<open>The block under \<^verbatim>\<open># fix pages\<close>.\<close>

definition fix_pages :: "string \<Rightarrow> string" where
  "fix_pages v0 =
    (let v = str_replace ''--'' ''&ndash;'' v0;
         v = str_replace ''-'' ''&ndash;'' v
     in v)"

text \<open>One pass of the loop body of \<^verbatim>\<open>clean_entry\<close>: the value stored under \<open>k\<close> for \<open>v\<close>.\<close>

definition clean_value :: "string \<Rightarrow> string \<Rightarrow> string" where
  "clean_value k v0 =
    (let v = str_strip v0;
         v = replace_special v;
         v = strip_delimiters v;
         v = remove_trailing_comma v;
         v = (if k = ''author'' \<or> k = ''author_first'' \<or> k = ''author_corresponding''
              then fix_author v else v);
         v = (if k = ''pages'' then fix_pages v else v)
     in v)"

text \<open>
  \<^verbatim>\<open>clean_entry\<close>: the loop over \<^verbatim>\<open>entry.items()\<close>, each pass ending in the assignment
  \<^verbatim>\<open>entry[k] = v\<close>. The first argument is what is left of the items, the second the
  dictionary as mutated so far; the function returns the dictionary after the loop (the
  Python function returns \<^verbatim>\<open>None\<close> and the caller keeps the mutated object).
\<close>

fun clean_items :: "(string \<times> string) list \<Rightarrow> entry \<Rightarrow> entry" where
  "clean_items [] entry = entry"
| "clean_items ((k, v) # items) entry = clean_items items (AList.update k (clean_value k v) entry)"

definition clean_entry :: "entry \<Rightarrow> entry" where
  "clean_entry entry = clean_items entry entry"

section \<open>The sort key\<close>

definition BIBTYPE_PRIORITY :: "string list" where
  "BIBTYPE_PRIORITY =
    [''phdthesis'', ''book'', ''inbook'', ''article'', ''inproceedings'', ''conferences'']"

text \<open>\<^verbatim>\<open>xs.index(x)\<close> for an \<open>x\<close> that is in the list: the position of its first occurrence.\<close>

fun list_index :: "string list \<Rightarrow> string \<Rightarrow> nat" where
  "list_index [] x = 0"
| "list_index (y # ys) x = (if y = x then 0 else Suc (list_index ys x))"

text \<open>
  \<^verbatim>\<open>int(s)\<close>, on the strings \<^verbatim>\<open>sort_key\<close> passes to it, those with \<^verbatim>\<open>s.isdigit()\<close>: the
  decimal value when every character is one of \<^verbatim>\<open>0\<close> .. \<^verbatim>\<open>9\<close>, and \<^verbatim>\<open>ValueError\<close> when a
  superscript digit occurs, which \<^verbatim>\<open>int\<close> does not accept. The value is never negative,
  so it is a \<^typ>\<open>nat\<close>. (The signs, blanks and underscores that \<^verbatim>\<open>int\<close> also reads cannot
  occur in such a string.) The interpreter converts a numeral of at most
  \<^verbatim>\<open>sys.get_int_max_str_digits()\<close> digits, 4300 unless the setting is changed, every digit of
  the string counted, and raises \<^verbatim>\<open>ValueError\<close> on a longer one.
\<close>

definition int_max_str_digits :: nat where
  "int_max_str_digits = 4300"

definition digit_value :: "char \<Rightarrow> nat" where
  "digit_value c = of_char c - 48"

definition py_int :: "string \<Rightarrow> error + nat" where
  "py_int s =
    (if s \<noteq> [] \<and> list_all is_decimal_char s \<and> length s \<le> int_max_str_digits
     then Inr (foldl (\<lambda>n c. 10 * n + digit_value c) 0 s)
     else Inl ValueError)"

text \<open>
  \<^verbatim>\<open>sort_key\<close> of the script, named \<open>sort_key_entry\<close> here (\<^const>\<open>sort_key\<close> is the sorting
  function of the list library). A component of the key is a Python \<^verbatim>\<open>int\<close> that is not
  negative, or \<^verbatim>\<open>float("inf")\<close>: an \<^typ>\<open>enat\<close>, whose order puts \<open>\<infinity>\<close> above every number
  as Python's comparison does.
\<close>

definition sort_key_entry :: "entry \<Rightarrow> error + (enat \<times> enat)" where
  "sort_key_entry bib_entry =
    and_then (lookup bib_entry ''year'') (\<lambda>year.
    and_then (if str_isdigit year then and_then (py_int year) (\<lambda>n. Inr (enat n)) else Inr \<infinity>)
      (\<lambda>year_val.
    and_then (lookup bib_entry ''ENTRYTYPE'') (\<lambda>entrytype.
      let type_val = (if entrytype \<in> set BIBTYPE_PRIORITY
                      then enat (list_index BIBTYPE_PRIORITY entrytype) else \<infinity>)
      in Inr (year_val, type_val))))"

section \<open>The entry renderer\<close>

definition span :: "string \<Rightarrow> string \<Rightarrow> string" where
  \<open>span cls text = ''<span class="'' @ cls @ ''">'' @ text @ ''</span>''\<close>

definition format_title_or_chapter :: "entry \<Rightarrow> error + string" where
  \<open>format_title_or_chapter entry =
    (if has entry ''chapter''
     then and_then (lookup entry ''chapter'') (\<lambda>chapter.
          let chapter_html = ''<span class="title">"'' @ chapter @ ''"</span>'' in
          and_then (lookup entry ''title'') (\<lambda>title.
          and_then (lookup entry ''publisher'') (\<lambda>publisher.
          let book_info = ''in: '' @ title @ '', '' @ publisher in
          Inr (chapter_html @ book_info))))
     else and_then (lookup entry ''title'') (\<lambda>title.
          Inr (''<span class="title"><i>"'' @ title @ ''"</i></span>'')))\<close>

definition format_publisher :: "entry \<Rightarrow> error + string" where
  "format_publisher entry =
    (if has entry ''journal''
     then and_then (lookup entry ''journal'') (\<lambda>journal. Inr (span ''publisher'' journal))
     else if has entry ''booktitle''
     then and_then (lookup entry ''booktitle'') (\<lambda>booktitle. Inr (span ''publisher'' booktitle))
     else if has entry ''eprint''
     then and_then (lookup entry ''eprint'') (\<lambda>eprint. Inr (span ''publisher'' eprint))
     else and_then (lookup entry ''ENTRYTYPE'') (\<lambda>entrytype.
          if entrytype = ''phdthesis''
          then and_then (lookup entry ''school'') (\<lambda>school. Inr (''PhD thesis, '' @ school))
          else if entrytype = ''techreport''
          then and_then (lookup entry ''number'') (\<lambda>number. Inr (''Tech. Report, '' @ number))
          else if entrytype = ''book''
          then lookup entry ''publisher''
          else Inr []))"

definition format_volume_pages_notes :: "entry \<Rightarrow> error + string" where
  "format_volume_pages_notes entry =
    (let parts = [] in
     and_then (if has entry ''volume''
               then and_then (lookup entry ''volume'') (\<lambda>volume. Inr (parts @ [''vol. '' @ volume]))
               else Inr parts) (\<lambda>parts.
     and_then (if has entry ''number''
               then and_then (lookup entry ''ENTRYTYPE'') (\<lambda>entrytype.
                    if entrytype \<noteq> ''techreport''
                    then and_then (lookup entry ''number'') (\<lambda>number. Inr (parts @ [''no. '' @ number]))
                    else Inr parts)
               else Inr parts) (\<lambda>parts.
     and_then (if has entry ''pages''
               then and_then (lookup entry ''pages'') (\<lambda>pages. Inr (parts @ [''pp. '' @ pages]))
               else Inr parts) (\<lambda>parts.
     and_then (if has entry ''month''
               then and_then (lookup entry ''month'') (\<lambda>month. Inr (parts @ [month]))
               else Inr parts) (\<lambda>parts.
     Inr (str_join '', '' parts))))))"

text \<open>\<^verbatim>\<open>get_link\<close> returns a string or \<^verbatim>\<open>None\<close>.\<close>

definition get_link :: "entry \<Rightarrow> error + string option" where
  "get_link entry =
    (if has entry ''url'' \<and> lookup entry ''url'' \<noteq> Inr []
     then and_then (lookup entry ''url'') (\<lambda>url. Inr (Some url))
     else if has entry ''www''
     then and_then (lookup entry ''www'') (\<lambda>www. Inr (Some www))
     else if has entry ''doi''
     then and_then (lookup entry ''doi'') (\<lambda>doi. Inr (Some (''https://dx.doi.org/'' @ doi)))
     else if has entry ''hal_id''
     then and_then (lookup entry ''hal_id'')
            (\<lambda>hal_id. Inr (Some (''https://hal.archives-ouvertes.fr/'' @ hal_id)))
     else Inr None)"

text \<open>\<^verbatim>\<open>xs.insert(i, x)\<close>: \<open>x\<close> is put before position \<open>i\<close>, or at the end of a shorter list.\<close>

definition list_insert :: "nat \<Rightarrow> 'a \<Rightarrow> 'a list \<Rightarrow> 'a list" where
  "list_insert i x xs = take i xs @ x # drop i xs"

text \<open>
  \<^verbatim>\<open>get_bib_entry_as_html\<close>, in two parts. The first runs from
  \<^verbatim>\<open># --- Start building HTML ---\<close> to the line before \<^verbatim>\<open>link = get_link()\<close> and yields the
  list \<open>out\<close> of fragments built so far; the second is the rest of the function, which
  joins the fragments at its end. \<^verbatim>\<open>if publisher_html\<close>, \<^verbatim>\<open>if vp\<close> and \<^verbatim>\<open>if link\<close> test for
  a string that is not empty (and, for the link, not \<^verbatim>\<open>None\<close>).
\<close>

definition entry_fragments :: "entry \<Rightarrow> error + string list" where
  \<open>entry_fragments entry =
    (let out = [''\<newline><li>\<newline>''] in
     and_then (if has entry ''author''
               then and_then (lookup entry ''author'') (\<lambda>author.
                    Inr (out @ [span ''author'' (author @ '',''), ''\<newline>'']))
               else Inr out) (\<lambda>out.
     and_then (format_title_or_chapter entry) (\<lambda>title_html.
     let out = out @ [title_html @ '',\<newline>''] in
     and_then (format_publisher entry) (\<lambda>publisher_html.
     let out = (if publisher_html \<noteq> [] then out @ [publisher_html] else out) in
     and_then (format_volume_pages_notes entry) (\<lambda>vp.
     let out = (if vp \<noteq> [] then out @ ['', '' @ vp] else out) in
     and_then (lookup entry ''year'') (\<lambda>year.
     let out = out @ ['', '' @ span ''year'' year @ ''.\<newline>''] in
     Inr out))))))\<close>

definition get_bib_entry_as_html :: "entry \<Rightarrow> error + string" where
  \<open>get_bib_entry_as_html entry =
     and_then (entry_fragments entry) (\<lambda>out.
     and_then (get_link entry) (\<lambda>link.
     let out = (case link of
                  None \<Rightarrow> out
                | Some l \<Rightarrow>
                    if l \<noteq> [] then list_insert 1 (''<a href="'' @ l @ ''">'') out @ [''</a>'']
                    else out);
         out = out @ [''\<newline></li>\<newline>''];
         out = out @ [''<br>\<newline>'']
     in Inr (concat out)))\<close>

section \<open>The functions as steps on the dictionary\<close>

text \<open>
  The functions above compute what the Python functions return. Here the same functions
  are written once more as the statements they are, each acting on the dictionary it is
  given: an action takes the dictionary and returns what the statement yields, a value or
  an exception, together with the dictionary as the statement leaves it.
\<close>

type_synonym 'a action = "entry \<Rightarrow> (error + 'a) \<times> entry"

text \<open>A value, a value or exception already computed, and one statement after another.\<close>

definition ret :: "'a \<Rightarrow> 'a action" where
  "ret x = (\<lambda>entry. (Inr x, entry))"

definition raise_or_ret :: "error + 'a \<Rightarrow> 'a action" where
  "raise_or_ret r = (\<lambda>entry. (r, entry))"

definition seq :: "'a action \<Rightarrow> ('a \<Rightarrow> 'b action) \<Rightarrow> 'b action" where
  "seq m f = (\<lambda>entry. case m entry of
                (Inl err, entry') \<Rightarrow> (Inl err, entry')
              | (Inr x, entry') \<Rightarrow> f x entry')"

text \<open>
  The operations on the dictionary that occur in the script: \<^verbatim>\<open>k in entry\<close>, \<^verbatim>\<open>entry[k]\<close>,
  the assignment \<^verbatim>\<open>entry[k] = v\<close> and \<^verbatim>\<open>entry.items()\<close>.
\<close>

definition dict_contains :: "string \<Rightarrow> bool action" where
  "dict_contains k = (\<lambda>entry. (Inr (map_of entry k \<noteq> None), entry))"

definition dict_get :: "string \<Rightarrow> string action" where
  "dict_get k = (\<lambda>entry. (case map_of entry k of None \<Rightarrow> Inl (KeyError k) | Some v \<Rightarrow> Inr v, entry))"

definition dict_set :: "string \<Rightarrow> string \<Rightarrow> unit action" where
  "dict_set k v = (\<lambda>entry. (Inr (), AList.update k v entry))"

definition dict_items :: "(string \<times> string) list action" where
  "dict_items = (\<lambda>entry. (Inr entry, entry))"

text \<open>\<^verbatim>\<open>clean_entry\<close>: the only function with an assignment to the dictionary.\<close>

fun clean_items_action :: "(string \<times> string) list \<Rightarrow> unit action" where
  "clean_items_action [] = ret ()"
| "clean_items_action ((k, v) # items) =
     seq (dict_set k (clean_value k v)) (\<lambda>_. clean_items_action items)"

definition clean_entry_action :: "unit action" where
  "clean_entry_action = seq dict_items clean_items_action"

text \<open>
  \<^verbatim>\<open>sort_key\<close>, each \<^verbatim>\<open>bib_entry[...]\<close> of the source a lookup of its own.
\<close>

definition sort_key_action :: "(enat \<times> enat) action" where
  "sort_key_action =
    seq (dict_get ''year'') (\<lambda>year.
    seq (if str_isdigit year
         then seq (dict_get ''year'') (\<lambda>year. seq (raise_or_ret (py_int year)) (\<lambda>n. ret (enat n)))
         else ret \<infinity>) (\<lambda>year_val.
    seq (dict_get ''ENTRYTYPE'') (\<lambda>entrytype.
    seq (if entrytype \<in> set BIBTYPE_PRIORITY
         then seq (dict_get ''ENTRYTYPE'') (\<lambda>entrytype.
              ret (enat (list_index BIBTYPE_PRIORITY entrytype)))
         else ret \<infinity>) (\<lambda>type_val.
    ret (year_val, type_val)))))"

text \<open>
  \<^verbatim>\<open>get_bib_entry_as_html\<close> with its inner functions, which read the \<^verbatim>\<open>entry\<close> of the
  enclosing call. The lists \<^verbatim>\<open>out\<close> and \<^verbatim>\<open>parts\<close> are local to the call.
\<close>

definition format_title_or_chapter_action :: "string action" where
  \<open>format_title_or_chapter_action =
    seq (dict_contains ''chapter'') (\<lambda>has_chapter.
    if has_chapter
    then seq (dict_get ''chapter'') (\<lambda>chapter.
         let chapter_html = ''<span class="title">"'' @ chapter @ ''"</span>'' in
         seq (dict_get ''title'') (\<lambda>title.
         seq (dict_get ''publisher'') (\<lambda>publisher.
         let book_info = ''in: '' @ title @ '', '' @ publisher in
         ret (chapter_html @ book_info))))
    else seq (dict_get ''title'') (\<lambda>title.
         ret (''<span class="title"><i>"'' @ title @ ''"</i></span>'')))\<close>

definition format_publisher_action :: "string action" where
  "format_publisher_action =
    seq (dict_contains ''journal'') (\<lambda>has_journal.
    if has_journal
    then seq (dict_get ''journal'') (\<lambda>journal. ret (span ''publisher'' journal))
    else seq (dict_contains ''booktitle'') (\<lambda>has_booktitle.
    if has_booktitle
    then seq (dict_get ''booktitle'') (\<lambda>booktitle. ret (span ''publisher'' booktitle))
    else seq (dict_contains ''eprint'') (\<lambda>has_eprint.
    if has_eprint
    then seq (dict_get ''eprint'') (\<lambda>eprint. ret (span ''publisher'' eprint))
    else seq (dict_get ''ENTRYTYPE'') (\<lambda>entrytype.
    if entrytype = ''phdthesis''
    then seq (dict_get ''school'') (\<lambda>school. ret (''PhD thesis, '' @ school))
    else seq (dict_get ''ENTRYTYPE'') (\<lambda>entrytype.
    if entrytype = ''techreport''
    then seq (dict_get ''number'') (\<lambda>number. ret (''Tech. Report, '' @ number))
    else seq (dict_get ''ENTRYTYPE'') (\<lambda>entrytype.
    if entrytype = ''book''
    then dict_get ''publisher''
    else ret []))))))"

definition format_volume_pages_notes_action :: "string action" where
  "format_volume_pages_notes_action =
    (let parts = [] in
     seq (seq (dict_contains ''volume'') (\<lambda>has_volume.
          if has_volume
          then seq (dict_get ''volume'') (\<lambda>volume. ret (parts @ [''vol. '' @ volume]))
          else ret parts)) (\<lambda>parts.
     seq (seq (dict_contains ''number'') (\<lambda>has_number.
          if has_number
          then seq (dict_get ''ENTRYTYPE'') (\<lambda>entrytype.
               if entrytype \<noteq> ''techreport''
               then seq (dict_get ''number'') (\<lambda>number. ret (parts @ [''no. '' @ number]))
               else ret parts)
          else ret parts)) (\<lambda>parts.
     seq (seq (dict_contains ''pages'') (\<lambda>has_pages.
          if has_pages
          then seq (dict_get ''pages'') (\<lambda>pages. ret (parts @ [''pp. '' @ pages]))
          else ret parts)) (\<lambda>parts.
     seq (seq (dict_contains ''month'') (\<lambda>has_month.
          if has_month
          then seq (dict_get ''month'') (\<lambda>month. ret (parts @ [month]))
          else ret parts)) (\<lambda>parts.
     ret (str_join '', '' parts))))))"

definition get_link_action :: "string option action" where
  "get_link_action =
    seq (dict_contains ''url'') (\<lambda>has_url.
    seq (if has_url then seq (dict_get ''url'') (\<lambda>url. ret (url \<noteq> [])) else ret False)
      (\<lambda>use_url.
    if use_url
    then seq (dict_get ''url'') (\<lambda>url. ret (Some url))
    else seq (dict_contains ''www'') (\<lambda>has_www.
    if has_www
    then seq (dict_get ''www'') (\<lambda>www. ret (Some www))
    else seq (dict_contains ''doi'') (\<lambda>has_doi.
    if has_doi
    then seq (dict_get ''doi'') (\<lambda>doi. ret (Some (''https://dx.doi.org/'' @ doi)))
    else seq (dict_contains ''hal_id'') (\<lambda>has_hal_id.
    if has_hal_id
    then seq (dict_get ''hal_id'')
           (\<lambda>hal_id. ret (Some (''https://hal.archives-ouvertes.fr/'' @ hal_id)))
    else ret None)))))"

definition entry_fragments_action :: "string list action" where
  \<open>entry_fragments_action =
    (let out = [''\<newline><li>\<newline>''] in
     seq (seq (dict_contains ''author'') (\<lambda>has_author.
          if has_author
          then seq (dict_get ''author'') (\<lambda>author.
               ret (out @ [span ''author'' (author @ '',''), ''\<newline>'']))
          else ret out)) (\<lambda>out.
     seq format_title_or_chapter_action (\<lambda>title_html.
     let out = out @ [title_html @ '',\<newline>''] in
     seq format_publisher_action (\<lambda>publisher_html.
     let out = (if publisher_html \<noteq> [] then out @ [publisher_html] else out) in
     seq format_volume_pages_notes_action (\<lambda>vp.
     let out = (if vp \<noteq> [] then out @ ['', '' @ vp] else out) in
     seq (dict_get ''year'') (\<lambda>year.
     let out = out @ ['', '' @ span ''year'' year @ ''.\<newline>''] in
     ret out))))))\<close>

definition get_bib_entry_as_html_action :: "string action" where
  \<open>get_bib_entry_as_html_action =
     seq entry_fragments_action (\<lambda>out.
     seq get_link_action (\<lambda>link.
     let out = (case link of
                  None \<Rightarrow> out
                | Some l \<Rightarrow>
                    if l \<noteq> [] then list_insert 1 (''<a href="'' @ l @ ''">'') out @ [''</a>'']
                    else out);
         out = out @ [''\<newline></li>\<newline>''];
         out = out @ [''<br>\<newline>'']
     in ret (concat out)))\<close>

section \<open>The script\<close>

text \<open>
  The main block sorts the entries with \<^verbatim>\<open>sorted(entries, key=sort_key)\<close>, then cleans and
  renders each entry of the sorted list and writes the text after a fixed prelude. It has no
  \<^verbatim>\<open>try\<close> statement: an exception raised by a call ends the script.

  \<^verbatim>\<open>sorted\<close> computes the key of every entry, in the order of the list, before it compares
  any two.
\<close>

fun sort_keys :: "entry list \<Rightarrow> error + (enat \<times> enat) list" where
  "sort_keys [] = Inr []"
| "sort_keys (bib_entry # rest) =
     and_then (sort_key_entry bib_entry) (\<lambda>k.
     and_then (sort_keys rest) (\<lambda>ks. Inr (k # ks)))"

text \<open>
  \<^verbatim>\<open>sorted\<close> is stable and compares the keys, which are tuples, lexicographically: so does
  the list library's \<^const>\<open>sort_key\<close> with the lexicographic order of pairs.
\<close>

definition sorted_entries :: "entry list \<Rightarrow> error + entry list" where
  "sorted_entries entries =
     and_then (sort_keys entries) (\<lambda>keys. Inr (map snd (sort_key fst (zip keys entries))))"

text \<open>The loop of the main block: the text written for the entries.\<close>

fun write_entries :: "entry list \<Rightarrow> error + string" where
  "write_entries [] = Inr []"
| "write_entries (bib_entry # rest) =
     (let bib_entry = clean_entry bib_entry in
      and_then (get_bib_entry_as_html bib_entry) (\<lambda>html.
      and_then (write_entries rest) (\<lambda>text. Inr (html @ text))))"

definition main_block :: "entry list \<Rightarrow> error + string" where
  "main_block entries = and_then (sorted_entries entries) write_entries"

section \<open>The specification's reading of the cleaner and of the link\<close>

text \<open>
  The generic treatment of a field value as the specification words it: trim whitespace,
  replace each sequence of a fixed table, strip the brace and quote delimiters, drop a
  single trailing comma. It is compared with \<^const>\<open>clean_value\<close> below.
\<close>

definition spec_escape_table :: "(string \<times> string) list" where
  "spec_escape_table =
    [(backslash # ''AE'', [CHR 0xC6]),
     ([backslash, CHR ''$'', backslash, CHR ''$''], '' ''),
     (''~'', '' ''),
     (backslash # ''O'', [CHR 0xD8]),
     (backslash # ''AA'', [CHR 0xC5]),
     (backslash # ''ae'', [CHR 0xE6]),
     (backslash # ''o'', [CHR 0xF8]),
     (backslash # dquote # ''o'', [CHR 0xF6]),
     (backslash # dquote # ''a'', [CHR 0xE4]),
     (backslash # ''aa'', [CHR 0xE5]),
     (backslash # squote # ''a'', ''&aacute;''),
     (backslash # squote # ''c'', ''&cacute;''),
     (backslash # squote # ''o'', ''&oacute;''),
     (backslash # squote # ''e'', ''&eacute;''),
     (backslash # ''c{c}'', ''&ccedil;'')]"

definition spec_drop_one_comma :: "string \<Rightarrow> string" where
  "spec_drop_one_comma v = (if v \<noteq> [] \<and> last v = CHR '','' then butlast v else v)"

definition spec_clean_value :: "string \<Rightarrow> string" where
  "spec_clean_value v =
    spec_drop_one_comma
      (filter (\<lambda>c. c \<noteq> CHR ''{'' \<and> c \<noteq> CHR ''}'' \<and> c \<noteq> dquote)
        (foldl (\<lambda>s (old, new). str_replace old new s) (str_strip v) spec_escape_table))"

text \<open>The keys whose values \<^const>\<open>clean_value\<close> treats as lists of authors.\<close>

definition author_key :: "string \<Rightarrow> bool" where
  "author_key k = (k = ''author'' \<or> k = ''author_first'' \<or> k = ''author_corresponding'')"

text \<open>\<open>p\<close> occurs in the string, as a run of adjacent characters.\<close>

fun occurs :: "string \<Rightarrow> string \<Rightarrow> bool" where
  "occurs p [] = (p = [])"
| "occurs p (c # cs) = (prefix p (c # cs) \<or> occurs p cs)"

text \<open>No sequence of the replacement table occurs in the string.\<close>

definition escapes_settled :: "string \<Rightarrow> bool" where
  "escapes_settled w = list_all (\<lambda>(old, new). \<not> occurs old w) spec_escape_table"

text \<open>
  A table of replacements whose patterns and outputs keep apart: no pattern starts with a
  character of an output, and no output starts with a character of a pattern.
\<close>

definition table_apart :: "(string \<times> string) list \<Rightarrow> bool" where
  "table_apart table =
     list_all (\<lambda>(old, new). old \<noteq> [] \<and> new \<noteq> []
        \<and> list_all (\<lambda>(old', new'). hd old \<notin> set new' \<and> hd new' \<notin> set old) table) table"

text \<open>
  A cleaned value that a second cleaning has no reason to touch: it neither begins nor ends
  with whitespace, does not end with a comma, holds no sequence of the replacement table,
  and, under an author key, holds neither \<open>" and "\<close> nor \<open>"&nbsp;"\<close> and has no comma in its
  first word.
\<close>

definition settled :: "string \<Rightarrow> string \<Rightarrow> bool" where
  "settled k w =
    (str_strip w = w \<and> (w = [] \<or> last w \<noteq> CHR '','') \<and> escapes_settled w
     \<and> (author_key k \<longrightarrow>
          \<not> occurs '' and '' w \<and> \<not> occurs ''&nbsp;'' w
          \<and> CHR '','' \<notin> set (takeWhile (\<lambda>c. c \<noteq> CHR '' '') w)))"

text \<open>
  The link of an entry by precedence: the \<open>url\<close> field unless it is empty, else the \<open>www\<close>
  field, else the address built from \<open>doi\<close>, else the one built from \<open>hal_id\<close>.
\<close>

definition spec_link :: "entry \<Rightarrow> string option" where
  "spec_link entry =
    (case (if map_of entry ''url'' = Some [] then None else map_of entry ''url'') of
       Some url \<Rightarrow> Some url
     | None \<Rightarrow>
        (case map_of entry ''www'' of
           Some www \<Rightarrow> Some www
         | None \<Rightarrow>
            (case map_of entry ''doi'' of
               Some doi \<Rightarrow> Some (''https://dx.doi.org/'' @ doi)
             | None \<Rightarrow>
                (case map_of entry ''hal_id'' of
                   Some hal_id \<Rightarrow> Some (''https://hal.archives-ouvertes.fr/'' @ hal_id)
                 | None \<Rightarrow> None))))"

text \<open>
  The shape of a rendered entry: the text of the entry proper, between the opening of the
  list item and its end, with the anchor around it when there is a link that is not empty.
\<close>

definition entry_body :: "entry \<Rightarrow> error + string" where
  "entry_body entry = and_then (entry_fragments entry) (\<lambda>out. Inr (concat (tl out)))"

definition wrap_entry :: "string option \<Rightarrow> string \<Rightarrow> string" where
  \<open>wrap_entry link body =
    (case link of
       Some l \<Rightarrow>
         if l \<noteq> []
         then ''\<newline><li>\<newline>'' @ ''<a href="'' @ l @ ''">'' @ body @ ''</a>'' @ ''\<newline></li>\<newline>'' @ ''<br>\<newline>''
         else ''\<newline><li>\<newline>'' @ body @ ''\<newline></li>\<newline>'' @ ''<br>\<newline>''
     | None \<Rightarrow> ''\<newline><li>\<newline>'' @ body @ ''\<newline></li>\<newline>'' @ ''<br>\<newline>'')\<close>

section \<open>Properties of the operations\<close>

lemma and_then_Inl [simp]: "and_then (Inl err) f = Inl err"
  by (simp add: and_then_def)

lemma and_then_Inr [simp]: "and_then (Inr x) f = f x"
  by (simp add: and_then_def)

lemma lookup_Some: "map_of entry k = Some v \<Longrightarrow> lookup entry k = Inr v"
  by (simp add: lookup_def)

lemma lookup_None: "map_of entry k = None \<Longrightarrow> lookup entry k = Inl (KeyError k)"
  by (simp add: lookup_def)

subsection \<open>replace\<close>

lemma str_replace_absent:
  "c \<in> set old \<Longrightarrow> c \<notin> set s \<Longrightarrow> str_replace old new s = s"
proof (induction s)
  case Nil
  then show ?case by auto
next
  case (Cons x xs)
  from Cons.prems have "\<not> prefix old (x # xs)"
    by (meson set_mono_prefix subsetD)
  with Cons show ?case by auto
qed

lemma str_replace_delete: "str_replace [c] [] s = filter (\<lambda>x. x \<noteq> c) s"
  by (induction s) auto

lemma str_replace_char_append:
  "str_replace [c] new (xs @ ys) = str_replace [c] new xs @ str_replace [c] new ys"
  by (induction xs) auto

lemma set_str_replace: "set (str_replace old new s) \<subseteq> set s \<union> set new"
proof (induction old new s rule: str_replace.induct)
  case (1 old new)
  then show ?case by auto
next
  case (2 old new c cs)
  then show ?case
    by (cases "old = []"; cases "prefix old (c # cs)") (auto dest: in_set_dropD)
qed

lemma str_replace_char_gone: "c \<notin> set new \<Longrightarrow> c \<notin> set (str_replace [c] new s)"
  by (induction s) auto

lemma str_replace_ends:
  "old \<noteq> [] \<Longrightarrow> new \<noteq> [] \<Longrightarrow> s \<noteq> [] \<Longrightarrow>
    str_replace old new s \<noteq> []
    \<and> (hd (str_replace old new s) = hd s \<or> hd (str_replace old new s) = hd new)
    \<and> (last (str_replace old new s) = last s \<or> last (str_replace old new s) = last new)"
proof (induction old new s rule: str_replace.induct)
  case (1 old new)
  then show ?case by simp
next
  case (2 old new c cs)
  show ?case
  proof (cases "prefix old (c # cs)")
    case True
    let ?r = "drop (length old - 1) cs"
    show ?thesis
    proof (cases "?r = []")
      case True
      with \<open>prefix old (c # cs)\<close> 2 show ?thesis by simp
    next
      case False
      then have "length old - 1 < length cs" by simp
      then have "last ?r = last cs" by (rule last_drop)
      moreover from False have "cs \<noteq> []" by auto
      ultimately have "last ?r = last (c # cs)" by simp
      with 2 False True show ?thesis by auto
    qed
  next
    case False
    with 2 show ?thesis by (cases cs) auto
  qed
qed

subsection \<open>occurrences and replacements\<close>

lemma occurs_drop: "occurs p (drop n s) \<Longrightarrow> p \<noteq> [] \<Longrightarrow> occurs p s"
proof (induction s arbitrary: n)
  case Nil
  then show ?case by simp
next
  case (Cons c cs)
  show ?case
  proof (cases n)
    case 0
    with Cons show ?thesis by simp
  next
    case (Suc m)
    with Cons have "occurs p cs" by simp
    then show ?thesis by simp
  qed
qed

lemma occurs_append_right: "occurs p (xs @ ys) \<Longrightarrow> p \<noteq> [] \<Longrightarrow> hd p \<notin> set xs \<Longrightarrow> occurs p ys"
proof (induction xs)
  case Nil
  then show ?case by simp
next
  case (Cons x xs)
  from Cons.prems have "\<not> prefix p ((x # xs) @ ys)"
    by (cases p) auto
  with Cons show ?case by simp
qed

lemma prefix_through_replace:
  "old \<noteq> [] \<Longrightarrow> new \<noteq> [] \<Longrightarrow> hd new \<notin> set t \<Longrightarrow>
     prefix t (str_replace old new s) \<Longrightarrow> prefix t s"
proof (induction old new s arbitrary: t rule: str_replace.induct)
  case (1 old new)
  then show ?case by simp
next
  case (2 old new c cs)
  show ?case
  proof (cases t)
    case Nil
    then show ?thesis by simp
  next
    case (Cons x t')
    show ?thesis
    proof (cases "prefix old (c # cs)")
      case True
      with 2 Cons have "prefix (x # t') (new @ str_replace old new (drop (length old - 1) cs))"
        by simp
      with 2 Cons have "x = hd new" by (cases new) auto
      with 2 Cons show ?thesis by simp
    next
      case False
      with 2 Cons show ?thesis by auto
    qed
  qed
qed

lemma replace_leaves_none:
  "old \<noteq> [] \<Longrightarrow> new \<noteq> [] \<Longrightarrow> hd old \<notin> set new \<Longrightarrow> hd new \<notin> set old \<Longrightarrow>
     \<not> occurs old (str_replace old new s)"
proof (induction old new s rule: str_replace.induct)
  case (1 old new)
  then show ?case by simp
next
  case (2 old new c cs)
  show ?case
  proof (cases "prefix old (c # cs)")
    case True
    with 2 have ih: "\<not> occurs old (str_replace old new (drop (length old - 1) cs))" by simp
    show ?thesis
    proof
      assume "occurs old (str_replace old new (c # cs))"
      with True 2 have "occurs old (new @ str_replace old new (drop (length old - 1) cs))" by simp
      moreover have "old \<noteq> []" and "hd old \<notin> set new" using 2 by simp_all
      ultimately have "occurs old (str_replace old new (drop (length old - 1) cs))"
        by (rule occurs_append_right)
      with ih show False by simp
    qed
  next
    case False
    with 2 have ih: "\<not> occurs old (str_replace old new cs)" by simp
    have "\<not> prefix old (c # str_replace old new cs)"
    proof
      assume p: "prefix old (c # str_replace old new cs)"
      obtain o1 old' where o: "old = o1 # old'" using 2 by (cases old) auto
      with p have c: "o1 = c" and pr': "prefix old' (str_replace old new cs)" by auto
      have "old \<noteq> []" and "new \<noteq> []" and "hd new \<notin> set old'" using 2 o by auto
      then have "prefix old' cs" using pr' by (rule prefix_through_replace)
      with \<open>o1 = c\<close> o False show False by simp
    qed
    with ih False 2 show ?thesis by simp
  qed
qed

lemma replace_makes_none:
  "old \<noteq> [] \<Longrightarrow> new \<noteq> [] \<Longrightarrow> p \<noteq> [] \<Longrightarrow> hd p \<notin> set new \<Longrightarrow> hd new \<notin> set p \<Longrightarrow>
     \<not> occurs p s \<Longrightarrow> \<not> occurs p (str_replace old new s)"
proof (induction old new s rule: str_replace.induct)
  case (1 old new)
  then show ?case by simp
next
  case (2 old new c cs)
  show ?case
  proof (cases "prefix old (c # cs)")
    case True
    have "\<not> occurs p (drop (length old - 1) cs)"
      using 2 occurs_drop [of p "length old - 1" cs] by auto
    with True 2 have ih: "\<not> occurs p (str_replace old new (drop (length old - 1) cs))" by simp
    show ?thesis
    proof
      assume "occurs p (str_replace old new (c # cs))"
      with True 2 have "occurs p (new @ str_replace old new (drop (length old - 1) cs))" by simp
      moreover have "p \<noteq> []" and "hd p \<notin> set new" using 2 by simp_all
      ultimately have "occurs p (str_replace old new (drop (length old - 1) cs))"
        by (rule occurs_append_right)
      with ih show False by simp
    qed
  next
    case False
    with 2 have ih: "\<not> occurs p (str_replace old new cs)" by simp
    have "\<not> prefix p (c # str_replace old new cs)"
    proof
      assume pr: "prefix p (c # str_replace old new cs)"
      obtain p1 p' where o: "p = p1 # p'" using 2 by (cases p) auto
      with pr have c: "p1 = c" and pr': "prefix p' (str_replace old new cs)" by auto
      have "old \<noteq> []" and "new \<noteq> []" and "hd new \<notin> set p'" using 2 o by auto
      then have "prefix p' cs" using pr' by (rule prefix_through_replace)
      with \<open>p1 = c\<close> o 2 show False by simp
    qed
    with ih False 2 show ?thesis by simp
  qed
qed

lemma replace_none: "\<not> occurs old s \<Longrightarrow> str_replace old new s = s"
  by (induction s) auto


subsection \<open>strip\<close>

lemma set_str_strip: "set (str_strip s) \<subseteq> set s"
  unfolding str_strip_def by (auto dest!: set_dropWhileD)

lemma str_strip_shape:
  "str_strip s = [] \<or> (\<not> isspace (hd (str_strip s)) \<and> \<not> isspace (last (str_strip s)))"
proof (cases "str_strip s = []")
  case True
  then show ?thesis by simp
next
  case False
  let ?u = "dropWhile isspace s"
  let ?d = "dropWhile isspace (rev ?u)"
  have t: "str_strip s = rev ?d" by (simp add: str_strip_def)
  with False have ne: "?d \<noteq> []" by simp
  then have "\<not> isspace (hd ?d)" by (rule hd_dropWhile)
  then have l: "\<not> isspace (last (str_strip s))" using ne t by (simp add: last_rev)
  have "rev (takeWhile isspace (rev ?u) @ ?d) = rev (rev ?u)"
    by (simp only: takeWhile_dropWhile_id)
  then have "rev ?d @ rev (takeWhile isspace (rev ?u)) = ?u"
    by (simp only: rev_append rev_rev_ident)
  then have u: "?u = str_strip s @ rev (takeWhile isspace (rev ?u))" using t by simp
  then have "?u \<noteq> []" using False by (metis append_is_Nil_conv)
  then have "\<not> isspace (hd ?u)" by (rule hd_dropWhile)
  moreover have "hd ?u = hd (str_strip s)" using u False by (metis hd_append2)
  ultimately show ?thesis using l by simp
qed

lemma str_strip_id:
  "s = [] \<or> (\<not> isspace (hd s) \<and> \<not> isspace (last s)) \<Longrightarrow> str_strip s = s"
proof (cases s)
  case Nil
  then show ?thesis by (simp add: str_strip_def)
next
  case (Cons x xs)
  assume "s = [] \<or> (\<not> isspace (hd s) \<and> \<not> isspace (last s))"
  with Cons have h: "\<not> isspace x" and l: "\<not> isspace (last s)" by auto
  from h Cons have a: "dropWhile isspace s = s" by simp
  from Cons have "rev s \<noteq> []" by simp
  then obtain y ys where r: "rev s = y # ys" by (cases "rev s") auto
  then have "y = last s" using Cons by (metis hd_rev list.sel(1) list.distinct(1))
  with l have "dropWhile isspace (y # ys) = y # ys" by simp
  with r have "dropWhile isspace (rev s) = rev s" by simp
  with a show ?thesis by (simp add: str_strip_def)
qed

lemma str_strip_idem: "str_strip (str_strip s) = str_strip s"
  using str_strip_shape [of s] by (rule str_strip_id)

subsection \<open>split, join, find\<close>

lemma str_split_not_Nil: "str_split sep s \<noteq> []"
  by (induction sep s rule: str_split.induct) (auto split: list.splits)

lemma str_find_char: "str_find [c] s \<ge> 0 \<longleftrightarrow> c \<in> set s"
  by (induction s) (auto simp: Let_def)

lemma str_join_Cons_Cons: "str_join sep ((x # p) # ps) = x # str_join sep (p # ps)"
  by (cases ps) auto

lemma str_split_nbsp_first:
  "CHR ''&'' \<notin> set w \<Longrightarrow> str_split ''&nbsp;'' (w @ ''&nbsp;'' @ r) = w # str_split ''&nbsp;'' r"
  by (induction w) auto

lemma nbsp_roundtrip:
  "CHR ''&'' \<notin> set a \<Longrightarrow>
     str_join '' '' (str_split ''&nbsp;'' (str_replace '' '' ''&nbsp;'' a)) = a"
proof (induction a)
  case Nil
  then show ?case by simp
next
  case (Cons x a)
  obtain p ps where s: "str_split ''&nbsp;'' (str_replace '' '' ''&nbsp;'' a) = p # ps"
    using str_split_not_Nil by (meson list.exhaust)
  show ?case
  proof (cases "x = CHR '' ''")
    case True
    with Cons s show ?thesis by simp
  next
    case False
    with Cons s show ?thesis by (simp add: str_join_Cons_Cons)
  qed
qed

subsection \<open>the iterations\<close>

lemma reverse_names_from:
  "reverse_names i authors = take i authors @ map reverse_name (drop i authors)"
proof (induction i authors rule: reverse_names.induct)
  case (1 i authors)
  show ?case
  proof (cases "i < length authors")
    case True
    with 1 show ?thesis
      by (subst reverse_names.simps) (simp add: take_Suc_conv_app_nth Cons_nth_drop_Suc [symmetric])
  next
    case False
    then show ?thesis by (subst reverse_names.simps) simp
  qed
qed

lemma reverse_names_map: "reverse_names 0 authors = map reverse_name authors"
  by (simp add: reverse_names_from)

lemma keys_clean_items:
  "fst ` set items \<subseteq> fst ` set entry \<Longrightarrow> map fst (clean_items items entry) = map fst entry"
proof (induction items arbitrary: entry)
  case Nil
  then show ?case by simp
next
  case (Cons kv items)
  obtain k v where kv: "kv = (k, v)" by (cases kv)
  let ?e = "AList.update k (clean_value k v) entry"
  have keys: "map fst ?e = map fst entry"
    using Cons.prems kv by (simp add: update_keys)
  then have "set (map fst ?e) = set (map fst entry)" by (rule arg_cong)
  then have "fst ` set items \<subseteq> fst ` set ?e" using Cons.prems by simp
  then have "map fst (clean_items items ?e) = map fst ?e" by (rule Cons.IH)
  with keys kv show ?case by simp
qed

lemma clean_items_append:
  "distinct (map fst (seen @ items)) \<Longrightarrow>
     clean_items items (map (\<lambda>(k, v). (k, clean_value k v)) seen @ items)
       = map (\<lambda>(k, v). (k, clean_value k v)) (seen @ items)"
proof (induction items arbitrary: seen)
  case Nil
  then show ?case by simp
next
  case (Cons kv items)
  obtain k v where kv: "kv = (k, v)" by (cases kv)
  let ?f = "\<lambda>(k, v). (k, clean_value k v)"
  from Cons.prems kv have notin: "k \<notin> fst ` set seen" by auto
  have "AList.update k (clean_value k v) (map ?f seen @ (k, v) # items)
          = map ?f seen @ (k, clean_value k v) # items"
    using notin by (induction seen) (auto)
  also have "\<dots> = map ?f (seen @ [(k, v)]) @ items" by simp
  finally have "clean_items (kv # items) (map ?f seen @ kv # items)
          = clean_items items (map ?f (seen @ [(k, v)]) @ items)" using kv by simp
  also have "\<dots> = map ?f ((seen @ [(k, v)]) @ items)"
    using Cons.prems kv by (intro Cons.IH) simp
  finally show ?case using kv by simp
qed

lemma clean_entry_map:
  "distinct (map fst entry) \<Longrightarrow> clean_entry entry = map (\<lambda>(k, v). (k, clean_value k v)) entry"
  using clean_items_append [of "[]" entry] by (simp add: clean_entry_def)

subsection \<open>the renderer\<close>

lemma lookup_has: "has entry k \<Longrightarrow> lookup entry k = Inr (the (map_of entry k))"
  by (auto simp: has_def lookup_def)

lemma lookup_error: "lookup entry k = Inl err \<Longrightarrow> err = KeyError k"
  by (simp add: lookup_def split: option.splits)

lemma format_title_or_chapter_error:
  "format_title_or_chapter entry = Inl err \<Longrightarrow> \<exists>k. err = KeyError k"
  by (auto simp: format_title_or_chapter_def and_then_def Let_def
      split: if_splits sum.splits dest: lookup_error)

lemma format_publisher_error:
  "format_publisher entry = Inl err \<Longrightarrow> \<exists>k. err = KeyError k"
  by (auto simp: format_publisher_def and_then_def
      split: if_splits sum.splits dest: lookup_error)

lemma format_volume_pages_notes_error:
  "format_volume_pages_notes entry = Inl err \<Longrightarrow> \<exists>k. err = KeyError k"
  by (auto simp: format_volume_pages_notes_def and_then_def Let_def
      split: if_splits sum.splits dest: lookup_error)

lemma entry_fragments_error:
  "entry_fragments entry = Inl err \<Longrightarrow> \<exists>k. err = KeyError k"
  by (auto simp: entry_fragments_def and_then_def Let_def
      split: if_splits sum.splits
      dest: lookup_error format_title_or_chapter_error format_publisher_error
        format_volume_pages_notes_error)

lemma entry_fragments_no_year:
  "map_of entry ''year'' = None \<Longrightarrow> \<exists>err. entry_fragments entry = Inl err"
  by (auto simp: entry_fragments_def and_then_def Let_def lookup_None lookup_has
      split: if_splits sum.splits)

lemma entry_fragments_first:
  "entry_fragments entry = Inr out \<Longrightarrow> \<exists>rest. out = ''\<newline><li>\<newline>'' # rest"
  by (auto simp: entry_fragments_def and_then_def Let_def
      split: if_splits sum.splits)

lemma get_link_spec: "get_link entry = Inr (spec_link entry)"
  by (auto simp: get_link_def spec_link_def has_def lookup_def split: option.splits)

lemma html_wrap:
  "get_bib_entry_as_html entry =
     and_then (entry_body entry) (\<lambda>body. Inr (wrap_entry (spec_link entry) body))"
proof (cases "entry_fragments entry")
  case (Inl err)
  then show ?thesis by (simp add: get_bib_entry_as_html_def entry_body_def)
next
  case (Inr out)
  then obtain rest where "out = ''\<newline><li>\<newline>'' # rest"
    using entry_fragments_first by blast
  with Inr show ?thesis
    by (simp add: get_bib_entry_as_html_def entry_body_def get_link_spec wrap_entry_def
        list_insert_def split: option.splits)
qed

subsection \<open>the cleaner\<close>

lemma replace_special_table:
  "replace_special v = foldl (\<lambda>s (old, new). str_replace old new s) v spec_escape_table"
  by (simp add: replace_special_def spec_escape_table_def Let_def)

lemma strip_delimiters_filter:
  "strip_delimiters v = filter (\<lambda>c. c \<noteq> CHR ''{'' \<and> c \<noteq> CHR ''}'' \<and> c \<noteq> dquote) v"
  by (simp add: strip_delimiters_def Let_def str_replace_delete)

lemma remove_trailing_comma_spec: "remove_trailing_comma v = spec_drop_one_comma v"
  by (simp add: remove_trailing_comma_def spec_drop_one_comma_def)

lemma clean_value_spec:
  "clean_value k v =
     (if k = ''pages'' then fix_pages else id)
       ((if author_key k then fix_author else id) (spec_clean_value v))"
  by (simp add: clean_value_def spec_clean_value_def author_key_def Let_def
      replace_special_table strip_delimiters_filter remove_trailing_comma_spec)

lemma fix_author_map:
  "fix_author v =
     str_join '', ''
       (map (\<lambda>a. reverse_name (str_replace '' '' ''&nbsp;'' (str_strip a)))
         (str_split '' and '' v))"
  by (simp add: fix_author_def Let_def reverse_names_map comp_def)

lemma reverse_name_surname_first:
  assumes "CHR '' '' \<notin> set s" and "CHR '','' \<notin> set s" and "CHR ''&'' \<notin> set s"
    and "CHR ''&'' \<notin> set f"
  shows "reverse_name (str_replace '' '' ''&nbsp;'' (s @ '', '' @ f)) = f @ '' '' @ s"
proof -
  have "str_replace '' '' ''&nbsp;'' (s @ '', '' @ f)
      = str_replace '' '' ''&nbsp;'' s @ str_replace '' '' ''&nbsp;'' '', ''
        @ str_replace '' '' ''&nbsp;'' f"
    by (simp only: str_replace_char_append)
  also have "str_replace '' '' ''&nbsp;'' s = s"
    using assms(1) by (intro str_replace_absent [where c = "CHR '' ''"]) simp_all
  also have "str_replace '' '' ''&nbsp;'' '', '' = '','' @ ''&nbsp;''" by simp
  finally have a: "str_replace '' '' ''&nbsp;'' (s @ '', '' @ f)
      = (s @ '','') @ ''&nbsp;'' @ str_replace '' '' ''&nbsp;'' f" by simp
  have "CHR ''&'' \<notin> set (s @ '','')" using assms(3) by simp
  then have sp: "str_split ''&nbsp;'' (str_replace '' '' ''&nbsp;'' (s @ '', '' @ f))
      = (s @ '','') # str_split ''&nbsp;'' (str_replace '' '' ''&nbsp;'' f)"
    unfolding a by (rule str_split_nbsp_first)
  have fnd: "str_find '','' (s @ '','') \<ge> 0" by (simp add: str_find_char)
  have sur: "str_replace '','' [] (s @ '','') = s"
    using assms(2) by (auto simp: str_replace_delete filter_id_conv)
  show ?thesis
    unfolding reverse_name_def sp
    using fnd sur nbsp_roundtrip [OF assms(4)] by (simp add: Let_def)
qed

subsection \<open>the replacement table\<close>

abbreviation replace_pair :: "string \<Rightarrow> string \<times> string \<Rightarrow> string" where
  "replace_pair \<equiv> (\<lambda>s (old, new). str_replace old new s)"

lemma table_apartD:
  assumes "table_apart table" and "(old, new) \<in> set table" and "(old', new') \<in> set table"
  shows "old \<noteq> []" and "new \<noteq> []" and "hd old \<notin> set new'" and "hd new' \<notin> set old"
  using assms by (auto simp: table_apart_def list_all_iff)

lemma foldl_leaves_none:
  assumes "table_apart table"
  shows "set seen \<union> set rest \<subseteq> set table \<Longrightarrow> (\<forall>(p, n) \<in> set seen. \<not> occurs p s) \<Longrightarrow>
    (\<forall>(p, n) \<in> set seen \<union> set rest. \<not> occurs p (foldl replace_pair s rest))"
proof (induction rest arbitrary: s seen)
  case Nil
  then show ?case by simp
next
  case (Cons pn rest)
  obtain old new where pn: "pn = (old, new)" by (cases pn)
  with Cons.prems have mem: "(old, new) \<in> set table" by auto
  let ?s = "str_replace old new s"
  have "\<not> occurs p ?s" if "(p, n) \<in> set (seen @ [pn])" for p n
  proof (cases "(p, n) = (old, new)")
    case True
    then show ?thesis
      using table_apartD [OF assms mem mem] by (simp add: replace_leaves_none)
  next
    case False
    with that pn have s: "(p, n) \<in> set seen" by auto
    with Cons.prems have m: "(p, n) \<in> set table" and "\<not> occurs p s" by auto
    then show ?thesis
      using table_apartD [OF assms mem m] table_apartD [OF assms m mem]
      by (intro replace_makes_none) simp_all
  qed
  then have "\<forall>(p, n) \<in> set (seen @ [pn]). \<not> occurs p ?s" by auto
  moreover have "set (seen @ [pn]) \<union> set rest \<subseteq> set table" using Cons.prems by auto
  ultimately have "\<forall>(p, n) \<in> set (seen @ [pn]) \<union> set rest. \<not> occurs p (foldl replace_pair ?s rest)"
    by (intro Cons.IH)
  then show ?case using pn by simp
qed

lemma foldl_replace_none:
  "\<forall>(p, n) \<in> set table. \<not> occurs p s \<Longrightarrow> foldl replace_pair s table = s"
  by (induction table) (auto simp: replace_none)

lemma spec_escape_table_apart: "table_apart spec_escape_table"
  by code_simp

lemma escapes_settled_replace_special: "escapes_settled (replace_special s)"
  using foldl_leaves_none [OF spec_escape_table_apart, of "[]" spec_escape_table s]
  by (simp add: escapes_settled_def replace_special_table list_all_iff)

lemma replace_special_settled: "escapes_settled w \<Longrightarrow> replace_special w = w"
  by (simp add: escapes_settled_def replace_special_table list_all_iff foldl_replace_none)

lemma replace_special_idem: "replace_special (replace_special s) = replace_special s"
  by (intro replace_special_settled escapes_settled_replace_special)


subsection \<open>pages\<close>

lemma fix_pages_no_hyphen: "CHR ''-'' \<notin> set (fix_pages s)"
  by (simp add: fix_pages_def Let_def str_replace_char_gone)

lemma fix_pages_fixed: "CHR ''-'' \<notin> set s \<Longrightarrow> fix_pages s = s"
  by (simp add: fix_pages_def Let_def str_replace_absent [where c = "CHR ''-''"])

lemma set_fix_pages: "set (fix_pages s) \<subseteq> set s \<union> set ''&ndash;''"
proof -
  have "set (fix_pages s) \<subseteq> set (str_replace ''--'' ''&ndash;'' s) \<union> set ''&ndash;''"
    unfolding fix_pages_def Let_def by (rule set_str_replace)
  moreover have "set (str_replace ''--'' ''&ndash;'' s) \<subseteq> set s \<union> set ''&ndash;''"
    by (rule set_str_replace)
  ultimately show ?thesis by blast
qed

subsection \<open>characters\<close>

lemma set_str_split: "\<Union> (set ` set (str_split sep s)) \<subseteq> set s"
proof (induction sep s rule: str_split.induct)
  case (1 sep)
  then show ?case by simp
next
  case (2 sep c cs)
  show ?case
  proof (cases "prefix sep (c # cs)")
    case True
    with 2 show ?thesis by (auto dest: in_set_dropD)
  next
    case False
    obtain p ps where s: "str_split sep cs = p # ps"
      using str_split_not_Nil by (meson list.exhaust)
    with 2 False show ?thesis by auto
  qed
qed

lemma set_str_join: "set (str_join sep xs) \<subseteq> set sep \<union> \<Union> (set ` set xs)"
  by (induction sep xs rule: str_join.induct) auto

lemma set_reverse_name: "set (reverse_name a) \<subseteq> set a \<union> {CHR '' ''}"
proof -
  obtain surname rest where s: "str_split ''&nbsp;'' a = surname # rest"
    using str_split_not_Nil by (meson list.exhaust)
  have parts: "set surname \<union> \<Union> (set ` set rest) \<subseteq> set a"
    using set_str_split [of "''&nbsp;''" a] s by simp
  have j1: "set (str_join '' '' rest) \<subseteq> set a \<union> {CHR '' ''}"
    using set_str_join [of "'' ''" rest] parts by auto
  have j2: "set (str_join '' '' (surname # rest)) \<subseteq> set a \<union> {CHR '' ''}"
    using set_str_join [of "'' ''" "surname # rest"] parts by auto
  have "set (str_replace '','' [] surname) \<subseteq> set a"
    using parts by (auto simp: str_replace_delete)
  with j1 j2 show ?thesis
    unfolding reverse_name_def s by (auto simp: Let_def)
qed

lemma set_fix_author: "set (fix_author s) \<subseteq> set s \<union> set '' ,&nbsp;''"
proof -
  define S where "S = set s \<union> set '' ,&nbsp;''"
  let ?names = "map (\<lambda>a. reverse_name (str_replace '' '' ''&nbsp;'' (str_strip a)))
      (str_split '' and '' s)"
  have sp: "CHR '' '' \<in> S" and sep: "set '', '' \<subseteq> S" and nb: "set ''&nbsp;'' \<subseteq> S"
    and ss: "set s \<subseteq> S"
    by (auto simp: S_def)
  have "set n \<subseteq> S" if "n \<in> set ?names" for n
  proof -
    from that obtain a where a: "a \<in> set (str_split '' and '' s)"
      and n: "n = reverse_name (str_replace '' '' ''&nbsp;'' (str_strip a))" by auto
    from a have "set a \<subseteq> set s" using set_str_split [of "'' and ''" s] by blast
    then have "set (str_strip a) \<subseteq> S" using set_str_strip [of a] ss by blast
    then have "set (str_replace '' '' ''&nbsp;'' (str_strip a)) \<subseteq> S"
      using set_str_replace [of "'' ''" "''&nbsp;''" "str_strip a"] nb by blast
    then show ?thesis
      using set_reverse_name [of "str_replace '' '' ''&nbsp;'' (str_strip a)"] n sp by blast
  qed
  then have "\<Union> (set ` set ?names) \<subseteq> S" by blast
  then have "set (str_join '', '' ?names) \<subseteq> S"
    using set_str_join [of "'', ''" ?names] sep by blast
  then show ?thesis by (simp only: fix_author_map S_def)
qed

lemma set_remove_trailing_comma: "set (remove_trailing_comma s) \<subseteq> set s"
  by (auto simp: remove_trailing_comma_def dest: in_set_butlastD)

lemma clean_value_no_delimiter:
  assumes "c = CHR ''{'' \<or> c = CHR ''}'' \<or> c = dquote"
  shows "c \<notin> set (clean_value k v)"
proof -
  let ?s = "remove_trailing_comma (strip_delimiters (replace_special (str_strip v)))"
  have "c \<notin> set (strip_delimiters (replace_special (str_strip v)))"
    using assms by (auto simp: strip_delimiters_filter)
  then have s: "c \<notin> set ?s" using set_remove_trailing_comma by blast
  have a: "c \<notin> set (fix_author ?s)"
    using s set_fix_author [of ?s] assms by auto
  have p: "c \<notin> set (fix_pages ?s)"
    using s set_fix_pages [of ?s] assms by auto
  have pa: "c \<notin> set (fix_pages (fix_author ?s))"
    using a set_fix_pages [of "fix_author ?s"] assms by auto
  from s a p pa show ?thesis by (simp add: clean_value_def Let_def)
qed

subsection \<open>a settled list of authors\<close>

lemma str_split_none: "\<not> occurs sep s \<Longrightarrow> str_split sep s = [s]"
  by (induction s) auto

lemma nbsp_roundtrip_settled:
  "\<not> occurs ''&nbsp;'' a \<Longrightarrow>
     str_join '' '' (str_split ''&nbsp;'' (str_replace '' '' ''&nbsp;'' a)) = a"
proof (induction a)
  case Nil
  then show ?case by simp
next
  case (Cons x a)
  obtain p ps where s: "str_split ''&nbsp;'' (str_replace '' '' ''&nbsp;'' a) = p # ps"
    using str_split_not_Nil by (meson list.exhaust)
  from Cons.prems have np: "\<not> prefix ''&nbsp;'' (x # a)" and na: "\<not> occurs ''&nbsp;'' a" by simp_all
  show ?case
  proof (cases "x = CHR '' ''")
    case True
    with Cons.IH na s show ?thesis by simp
  next
    case False
    have "\<not> prefix ''&nbsp;'' (x # str_replace '' '' ''&nbsp;'' a)"
    proof
      assume pr: "prefix ''&nbsp;'' (x # str_replace '' '' ''&nbsp;'' a)"
      note pr [unfolded Cons_prefix_Cons]
      then have x: "CHR ''&'' = x" and pr': "prefix ''nbsp;'' (str_replace '' '' ''&nbsp;'' a)"
        by blast+
      have "'' '' \<noteq> []" and "''&nbsp;'' \<noteq> []" and "hd ''&nbsp;'' \<notin> set ''nbsp;''" by simp_all
      then have "prefix ''nbsp;'' a" using pr' by (rule prefix_through_replace)
      with x np show False by simp
    qed
    then have "str_split ''&nbsp;'' (x # str_replace '' '' ''&nbsp;'' a) = (x # p) # ps"
      using s by (simp only: str_split.simps if_False list.case)
    moreover have "str_replace '' '' ''&nbsp;'' (x # a) = x # str_replace '' '' ''&nbsp;'' a"
      using False by simp
    moreover have "str_join '' '' (p # ps) = a" using Cons.IH na s by simp
    ultimately show ?thesis by (simp only: str_join_Cons_Cons)
  qed
qed

lemma nbsp_first_word_settled:
  "\<not> occurs ''&nbsp;'' a \<Longrightarrow>
     hd (str_split ''&nbsp;'' (str_replace '' '' ''&nbsp;'' a)) = takeWhile (\<lambda>c. c \<noteq> CHR '' '') a"
proof (induction a)
  case Nil
  then show ?case by simp
next
  case (Cons x a)
  obtain p ps where s: "str_split ''&nbsp;'' (str_replace '' '' ''&nbsp;'' a) = p # ps"
    using str_split_not_Nil by (meson list.exhaust)
  from Cons.prems have np: "\<not> prefix ''&nbsp;'' (x # a)" and na: "\<not> occurs ''&nbsp;'' a" by simp_all
  show ?case
  proof (cases "x = CHR '' ''")
    case True
    then show ?thesis by simp
  next
    case False
    have "\<not> prefix ''&nbsp;'' (x # str_replace '' '' ''&nbsp;'' a)"
    proof
      assume pr: "prefix ''&nbsp;'' (x # str_replace '' '' ''&nbsp;'' a)"
      note pr [unfolded Cons_prefix_Cons]
      then have x: "CHR ''&'' = x" and pr': "prefix ''nbsp;'' (str_replace '' '' ''&nbsp;'' a)"
        by blast+
      have "'' '' \<noteq> []" and "''&nbsp;'' \<noteq> []" and "hd ''&nbsp;'' \<notin> set ''nbsp;''" by simp_all
      then have "prefix ''nbsp;'' a" using pr' by (rule prefix_through_replace)
      with x np show False by simp
    qed
    then have "str_split ''&nbsp;'' (x # str_replace '' '' ''&nbsp;'' a) = (x # p) # ps"
      using s by (simp only: str_split.simps if_False list.case)
    moreover have "str_replace '' '' ''&nbsp;'' (x # a) = x # str_replace '' '' ''&nbsp;'' a"
      using False by simp
    moreover have "p = takeWhile (\<lambda>c. c \<noteq> CHR '' '') a" using Cons.IH na s by simp
    ultimately show ?thesis using False by simp
  qed
qed

lemma reverse_name_settled:
  assumes "\<not> occurs ''&nbsp;'' a" and "CHR '','' \<notin> set (takeWhile (\<lambda>c. c \<noteq> CHR '' '') a)"
  shows "reverse_name (str_replace '' '' ''&nbsp;'' a) = a"
proof -
  obtain p ps where s: "str_split ''&nbsp;'' (str_replace '' '' ''&nbsp;'' a) = p # ps"
    using str_split_not_Nil by (meson list.exhaust)
  with nbsp_first_word_settled [OF assms(1)] have "p = takeWhile (\<lambda>c. c \<noteq> CHR '' '') a" by simp
  with assms(2) have "\<not> str_find '','' p \<ge> 0" by (simp add: str_find_char)
  then show ?thesis
    unfolding reverse_name_def using s nbsp_roundtrip_settled [OF assms(1)] by simp
qed

lemma fix_author_settled:
  assumes "str_strip w = w" and "\<not> occurs '' and '' w" and "\<not> occurs ''&nbsp;'' w"
    and "CHR '','' \<notin> set (takeWhile (\<lambda>c. c \<noteq> CHR '' '') w)"
  shows "fix_author w = w"
  using assms by (simp add: fix_author_map str_split_none reverse_name_settled)

subsection \<open>a settled value\<close>

lemma clean_value_fixed:
  assumes "settled k w"
    and "CHR ''{'' \<notin> set w" and "CHR ''}'' \<notin> set w" and "dquote \<notin> set w"
    and "k = ''pages'' \<longrightarrow> CHR ''-'' \<notin> set w"
  shows "clean_value k w = w"
proof -
  from assms(1) have "replace_special (str_strip w) = w"
    by (simp add: settled_def replace_special_settled)
  moreover have "strip_delimiters w = w"
    using assms(2-4) by (auto simp: strip_delimiters_filter filter_id_conv)
  moreover have "remove_trailing_comma w = w"
    using assms(1) by (auto simp: settled_def remove_trailing_comma_def)
  moreover have "fix_author w = w" if "author_key k"
    using that assms(1) by (intro fix_author_settled) (simp_all add: settled_def)
  moreover have "fix_pages w = w" if "k = ''pages''"
    using that assms(5) by (simp add: fix_pages_fixed)
  ultimately show ?thesis
    by (auto simp: clean_value_def Let_def author_key_def)
qed

lemma clean_value_twice:
  assumes "settled k (clean_value k v)"
  shows "clean_value k (clean_value k v) = clean_value k v"
proof (rule clean_value_fixed [OF assms])
  show "CHR ''{'' \<notin> set (clean_value k v)" by (rule clean_value_no_delimiter) simp
  show "CHR ''}'' \<notin> set (clean_value k v)" by (rule clean_value_no_delimiter) simp
  show "dquote \<notin> set (clean_value k v)" by (rule clean_value_no_delimiter) simp
  show "k = ''pages'' \<longrightarrow> CHR ''-'' \<notin> set (clean_value k v)"
    by (simp add: clean_value_def Let_def fix_pages_no_hyphen)
qed


subsection \<open>the steps on the dictionary\<close>

lemma seq_reads:
  "m entry = (r, entry) \<Longrightarrow>
     seq m f entry = (case r of Inl err \<Rightarrow> (Inl err, entry) | Inr x \<Rightarrow> f x entry)"
  by (simp add: seq_def split: sum.splits)

lemma dict_get_reads: "dict_get k entry = (lookup entry k, entry)"
  by (simp add: dict_get_def lookup_def)

lemma dict_contains_reads: "dict_contains k entry = (Inr (has entry k), entry)"
  by (simp add: dict_contains_def has_def)

lemmas action_simps = seq_def ret_def raise_or_ret_def dict_get_reads dict_contains_reads

lemma clean_items_action_eq: "clean_items_action items entry = (Inr (), clean_items items entry)"
  by (induction items arbitrary: entry) (auto simp: seq_def ret_def dict_set_def)

lemma clean_entry_action_eq: "clean_entry_action entry = (Inr (), clean_entry entry)"
  by (simp add: clean_entry_action_def seq_def dict_items_def clean_items_action_eq clean_entry_def)

lemma sort_key_action_eq: "sort_key_action entry = (sort_key_entry entry, entry)"
  by (simp add: sort_key_action_def sort_key_entry_def action_simps and_then_def Let_def
      split: sum.splits)

lemma format_title_or_chapter_action_eq:
  "format_title_or_chapter_action entry = (format_title_or_chapter entry, entry)"
  by (simp add: format_title_or_chapter_action_def format_title_or_chapter_def action_simps
      and_then_def Let_def split: sum.splits)

lemma format_publisher_action_eq:
  "format_publisher_action entry = (format_publisher entry, entry)"
  by (simp add: format_publisher_action_def format_publisher_def action_simps
      and_then_def split: sum.splits)

lemma format_volume_pages_notes_action_eq:
  "format_volume_pages_notes_action entry = (format_volume_pages_notes entry, entry)"
  by (simp add: format_volume_pages_notes_action_def format_volume_pages_notes_def action_simps
      and_then_def Let_def split: sum.splits)

lemma get_link_action_eq: "get_link_action entry = (get_link entry, entry)"
  by (simp add: get_link_action_def get_link_def action_simps and_then_def has_def lookup_def
      split: sum.splits option.splits)

lemma seq_eq:
  "m entry = (r, entry) \<Longrightarrow> (\<And>x. r = Inr x \<Longrightarrow> f x entry = (g x, entry)) \<Longrightarrow>
     seq m f entry = (and_then r g, entry)"
  by (cases r) (simp_all add: seq_def)

lemma entry_fragments_action_eq:
  "entry_fragments_action entry = (entry_fragments entry, entry)"
  unfolding entry_fragments_action_def entry_fragments_def Let_def
proof (intro seq_eq)
  show \<open>seq (dict_contains ''author'') (\<lambda>has_author.
          if has_author
          then seq (dict_get ''author'') (\<lambda>author.
               ret ([''\<newline><li>\<newline>''] @ [span ''author'' (author @ '',''), ''\<newline>'']))
          else ret [''\<newline><li>\<newline>'']) entry
      = (if has entry ''author''
         then and_then (lookup entry ''author'') (\<lambda>author.
              Inr ([''\<newline><li>\<newline>''] @ [span ''author'' (author @ '',''), ''\<newline>'']))
         else Inr [''\<newline><li>\<newline>''], entry)\<close>
    by (simp add: action_simps and_then_def split: sum.splits)
  show "format_title_or_chapter_action entry = (format_title_or_chapter entry, entry)"
    by (rule format_title_or_chapter_action_eq)
  show "format_publisher_action entry = (format_publisher entry, entry)"
    by (rule format_publisher_action_eq)
  show "format_volume_pages_notes_action entry = (format_volume_pages_notes entry, entry)"
    by (rule format_volume_pages_notes_action_eq)
  show "dict_get ''year'' entry = (lookup entry ''year'', entry)"
    by (rule dict_get_reads)
  show "ret x entry = (Inr x, entry)" for x :: "string list"
    by (simp add: ret_def)
qed

lemma get_bib_entry_as_html_action_eq:
  "get_bib_entry_as_html_action entry = (get_bib_entry_as_html entry, entry)"
  unfolding get_bib_entry_as_html_action_def get_bib_entry_as_html_def Let_def
proof (intro seq_eq)
  show "entry_fragments_action entry = (entry_fragments entry, entry)"
    by (rule entry_fragments_action_eq)
  show "get_link_action entry = (get_link entry, entry)"
    by (rule get_link_action_eq)
  show "ret x entry = (Inr x, entry)" for x :: string
    by (simp add: ret_def)
qed


subsection \<open>the script\<close>

lemma sort_keys_error:
  "bib_entry \<in> set entries \<Longrightarrow> sort_key_entry bib_entry = Inl err \<Longrightarrow>
     \<exists>err'. sort_keys entries = Inl err'"
proof (induction entries)
  case Nil
  then show ?case by simp
next
  case (Cons e entries)
  show ?case
  proof (cases "sort_key_entry e")
    case (Inl a)
    then show ?thesis by simp
  next
    case (Inr k)
    with Cons have "bib_entry \<in> set entries" by auto
    with Cons obtain err' where "sort_keys entries = Inl err'" by blast
    with Inr show ?thesis by simp
  qed
qed

lemma main_block_error:
  "bib_entry \<in> set entries \<Longrightarrow> sort_key_entry bib_entry = Inl err \<Longrightarrow>
     \<exists>err'. main_block entries = Inl err'"
  using sort_keys_error [of bib_entry entries err]
  by (auto simp: main_block_def sorted_entries_def)

section \<open>The claims\<close>

subsection \<open>Missing year\<close>

text \<open>
  C6: for every entry without a \<open>year\<close> field, \<^verbatim>\<open>sort_key\<close> raises the \<^verbatim>\<open>KeyError\<close> of the
  lookup of \<open>year\<close>, and \<^verbatim>\<open>get_bib_entry_as_html\<close> raises a \<^verbatim>\<open>KeyError\<close> as well (of \<open>year\<close>,
  or of a field it looks up before, such as \<open>title\<close>); neither returns a result. Nothing
  catches the exception: the script that is given such an entry ends with an exception.
\<close>

theorem missing_year_raises:
  assumes "map_of entry ''year'' = None"
  shows "sort_key_entry entry = Inl (KeyError ''year'')
         \<and> (\<exists>k. get_bib_entry_as_html entry = Inl (KeyError k))
         \<and> (entry \<in> set entries \<longrightarrow> (\<exists>err. main_block entries = Inl err))"
proof (intro conjI impI)
  show s: "sort_key_entry entry = Inl (KeyError ''year'')"
    using assms by (simp add: sort_key_entry_def lookup_None)
  from assms obtain err where e: "entry_fragments entry = Inl err"
    using entry_fragments_no_year by blast
  then obtain k where "err = KeyError k" using entry_fragments_error by blast
  with e show "\<exists>k. get_bib_entry_as_html entry = Inl (KeyError k)"
    by (simp add: get_bib_entry_as_html_def)
  show "\<exists>err. main_block entries = Inl err" if "entry \<in> set entries"
    using that s by (rule main_block_error)
qed

theorem missing_year_raises_witness:
  "map_of [(''ENTRYTYPE'', ''article''), (''title'', ''T'')] ''year'' = None
   \<and> sort_key_entry [(''ENTRYTYPE'', ''article''), (''title'', ''T'')] = Inl (KeyError ''year'')
   \<and> (\<exists>k. get_bib_entry_as_html [(''ENTRYTYPE'', ''article''), (''title'', ''T'')]
            = Inl (KeyError k))
   \<and> (\<exists>err. main_block
          [[(''ENTRYTYPE'', ''book''), (''title'', ''B''), (''year'', ''2020'')],
           [(''ENTRYTYPE'', ''article''), (''title'', ''T'')]] = Inl err)"
  using missing_year_raises [of "[(''ENTRYTYPE'', ''article''), (''title'', ''T'')]"
      "[[(''ENTRYTYPE'', ''book''), (''title'', ''B''), (''year'', ''2020'')],
        [(''ENTRYTYPE'', ''article''), (''title'', ''T'')]]"]
  by simp

subsection \<open>The summary line\<close>

text \<open>
  C7: for every entry with none of the fields \<open>volume\<close>, \<open>number\<close>, \<open>pages\<close> and \<open>month\<close>, the
  summary line is empty and the rendered entry has nothing between the publisher line and
  the \<open>", "\<close> that opens the year: no separator of its own and no placeholder.
\<close>

theorem no_summary_clause:
  assumes "map_of entry ''volume'' = None" and "map_of entry ''number'' = None"
    and "map_of entry ''pages'' = None" and "map_of entry ''month'' = None"
  shows \<open>format_volume_pages_notes entry = Inr []
    \<and> get_bib_entry_as_html entry =
        and_then (format_title_or_chapter entry) (\<lambda>title_html.
        and_then (format_publisher entry) (\<lambda>publisher_html.
        and_then (lookup entry ''year'') (\<lambda>year.
          Inr (wrap_entry (spec_link entry)
            ((case map_of entry ''author'' of
                None \<Rightarrow> []
              | Some author \<Rightarrow> span ''author'' (author @ '','') @ ''\<newline>'')
             @ title_html @ '',\<newline>'' @ publisher_html
             @ '', '' @ span ''year'' year @ ''.\<newline>'')))))\<close>
proof
  show vp: "format_volume_pages_notes entry = Inr []"
    using assms by (simp add: format_volume_pages_notes_def has_def)
  show \<open>get_bib_entry_as_html entry =
        and_then (format_title_or_chapter entry) (\<lambda>title_html.
        and_then (format_publisher entry) (\<lambda>publisher_html.
        and_then (lookup entry ''year'') (\<lambda>year.
          Inr (wrap_entry (spec_link entry)
            ((case map_of entry ''author'' of
                None \<Rightarrow> []
              | Some author \<Rightarrow> span ''author'' (author @ '','') @ ''\<newline>'')
             @ title_html @ '',\<newline>'' @ publisher_html
             @ '', '' @ span ''year'' year @ ''.\<newline>'')))))\<close>
    unfolding html_wrap entry_body_def entry_fragments_def vp
    by (cases "format_title_or_chapter entry"; cases "format_publisher entry";
        cases "lookup entry ''year''")
      (auto simp: has_def lookup_def Let_def split: option.splits)
qed

theorem no_summary_clause_witness:
  \<open>map_of [(''ENTRYTYPE'', ''article''), (''title'', ''T''), (''journal'', ''J''), (''year'', ''2020'')]
      ''volume'' = None
   \<and> map_of [(''ENTRYTYPE'', ''article''), (''title'', ''T''), (''journal'', ''J''), (''year'', ''2020'')]
      ''number'' = None
   \<and> map_of [(''ENTRYTYPE'', ''article''), (''title'', ''T''), (''journal'', ''J''), (''year'', ''2020'')]
      ''pages'' = None
   \<and> map_of [(''ENTRYTYPE'', ''article''), (''title'', ''T''), (''journal'', ''J''), (''year'', ''2020'')]
      ''month'' = None
   \<and> get_bib_entry_as_html
        [(''ENTRYTYPE'', ''article''), (''title'', ''T''), (''journal'', ''J''), (''year'', ''2020'')]
      = Inr (''\<newline><li>\<newline><span class="title"><i>"T"</i></span>,\<newline>''
             @ ''<span class="publisher">J</span>, <span class="year">2020</span>.\<newline>''
             @ ''\<newline></li>\<newline><br>\<newline>'')\<close>
  using no_summary_clause
    [of "[(''ENTRYTYPE'', ''article''), (''title'', ''T''), (''journal'', ''J''), (''year'', ''2020'')]"]
  by (simp add: format_title_or_chapter_def format_publisher_def lookup_def has_def
      spec_link_def wrap_entry_def span_def)

subsection \<open>What the functions do to the entry\<close>

text \<open>
  C9: run as statements on the dictionary, \<^verbatim>\<open>clean_entry\<close> leaves behind the cleaned entry,
  whose keys are those of the entry it was given, in number and in order, while \<^verbatim>\<open>sort_key\<close>
  and \<^verbatim>\<open>get_bib_entry_as_html\<close> return their result, or raise, and leave the dictionary as
  they found it, keys and values.
\<close>

theorem entries_read_only:
  "clean_entry_action entry = (Inr (), clean_entry entry)
   \<and> map fst (clean_entry entry) = map fst entry
   \<and> sort_key_action entry = (sort_key_entry entry, entry)
   \<and> get_bib_entry_as_html_action entry = (get_bib_entry_as_html entry, entry)"
  by (simp add: clean_entry_action_eq sort_key_action_eq get_bib_entry_as_html_action_eq
      clean_entry_def keys_clean_items)

subsection \<open>An empty url\<close>

text \<open>
  C10: for every entry whose \<open>url\<close> field is the empty string, \<^verbatim>\<open>get_link\<close> passes over it
  and returns the \<open>www\<close> field if there is one, else the address built from \<open>doi\<close>, else the
  one built from \<open>hal_id\<close>, else \<^verbatim>\<open>None\<close>. None of these later fields is tested for
  emptiness: an empty \<open>www\<close> is returned as the link.
\<close>

theorem get_link_empty_url:
  assumes "map_of entry ''url'' = Some []"
  shows "get_link entry =
    (case map_of entry ''www'' of
       Some www \<Rightarrow> Inr (Some www)
     | None \<Rightarrow>
        (case map_of entry ''doi'' of
           Some doi \<Rightarrow> Inr (Some (''https://dx.doi.org/'' @ doi))
         | None \<Rightarrow>
            (case map_of entry ''hal_id'' of
               Some hal_id \<Rightarrow> Inr (Some (''https://hal.archives-ouvertes.fr/'' @ hal_id))
             | None \<Rightarrow> Inr None)))"
  using assms by (simp add: get_link_def has_def lookup_def split: option.splits)

theorem get_link_empty_url_witness:
  "map_of [(''url'', []), (''www'', []), (''doi'', ''10.1/x'')] ''url'' = Some []
   \<and> get_link [(''url'', []), (''www'', []), (''doi'', ''10.1/x'')] = Inr (Some [])"
  using get_link_empty_url [of "[(''url'', []), (''www'', []), (''doi'', ''10.1/x'')]"]
  by simp

subsection \<open>The link\<close>

text \<open>
  An entry with an empty \<open>url\<close> and a \<open>doi\<close> is linked to the address built from the \<open>doi\<close>,
  not to its \<open>url\<close> value.
\<close>

theorem empty_url_links_to_doi:
  \<open>map_of [(''ENTRYTYPE'', ''article''), (''title'', ''T''), (''year'', ''2020''), (''url'', []), (''doi'', ''10.1/x'')]
      ''url'' = Some []
   \<and> map_of [(''ENTRYTYPE'', ''article''), (''title'', ''T''), (''year'', ''2020''), (''url'', []), (''doi'', ''10.1/x'')]
      ''doi'' = Some ''10.1/x''
   \<and> get_bib_entry_as_html
        [(''ENTRYTYPE'', ''article''), (''title'', ''T''), (''year'', ''2020''), (''url'', []), (''doi'', ''10.1/x'')]
      = Inr (''\<newline><li>\<newline><a href="https://dx.doi.org/10.1/x">''
             @ ''<span class="title"><i>"T"</i></span>,\<newline>''
             @ '', <span class="year">2020</span>.\<newline></a>''
             @ ''\<newline></li>\<newline><br>\<newline>'')\<close>
  by (simp add: get_bib_entry_as_html_def entry_fragments_def format_title_or_chapter_def
      format_publisher_def format_volume_pages_notes_def get_link_def lookup_def has_def
      span_def list_insert_def)

text \<open>
  C4, amended: \<^verbatim>\<open>get_link\<close> returns the \<open>url\<close> field unless it is empty, else the \<open>www\<close> field,
  else the address built from \<open>doi\<close>, else the one built from \<open>hal_id\<close>, else \<^verbatim>\<open>None\<close>; the
  rendered entry is its body inside an anchor on that link when the link is a string that is
  not empty, and the bare body otherwise. So an entry with a \<open>url\<close> that is not empty is
  wrapped in an anchor whose \<open>href\<close> is the \<open>url\<close> value, whatever its \<open>doi\<close>, and an entry
  with none of the four fields gets no anchor.
\<close>

theorem link_precedence:
  \<open>get_link entry = Inr (spec_link entry)
   \<and> get_bib_entry_as_html entry =
       and_then (entry_body entry) (\<lambda>body. Inr (wrap_entry (spec_link entry) body))
   \<and> (\<forall>url. map_of entry ''url'' = Some url \<and> url \<noteq> [] \<longrightarrow>
         get_bib_entry_as_html entry =
           and_then (entry_body entry) (\<lambda>body.
             Inr (''\<newline><li>\<newline>'' @ ''<a href="'' @ url @ ''">'' @ body @ ''</a>''
                  @ ''\<newline></li>\<newline>'' @ ''<br>\<newline>'')))
   \<and> (map_of entry ''url'' = None \<and> map_of entry ''www'' = None
        \<and> map_of entry ''doi'' = None \<and> map_of entry ''hal_id'' = None \<longrightarrow>
         get_bib_entry_as_html entry =
           and_then (entry_body entry) (\<lambda>body.
             Inr (''\<newline><li>\<newline>'' @ body @ ''\<newline></li>\<newline>'' @ ''<br>\<newline>'')))\<close>
  by (auto simp: get_link_spec html_wrap wrap_entry_def spec_link_def)

theorem link_precedence_witness:
  \<open>map_of [(''ENTRYTYPE'', ''article''), (''title'', ''T''), (''year'', ''2020''), (''url'', ''http://u''), (''doi'', ''10.1/x'')]
      ''url'' = Some ''http://u''
   \<and> get_bib_entry_as_html
        [(''ENTRYTYPE'', ''article''), (''title'', ''T''), (''year'', ''2020''), (''url'', ''http://u''), (''doi'', ''10.1/x'')]
      = Inr (''\<newline><li>\<newline><a href="http://u">''
             @ ''<span class="title"><i>"T"</i></span>,\<newline>''
             @ '', <span class="year">2020</span>.\<newline></a>''
             @ ''\<newline></li>\<newline><br>\<newline>'')\<close>
  using link_precedence
    [of "[(''ENTRYTYPE'', ''article''), (''title'', ''T''), (''year'', ''2020''), (''url'', ''http://u''), (''doi'', ''10.1/x'')]"]
  by (simp add: entry_body_def entry_fragments_def format_title_or_chapter_def
      format_publisher_def format_volume_pages_notes_def lookup_def has_def span_def
      spec_link_def wrap_entry_def)

subsection \<open>Technical reports\<close>

text \<open>
  A technical report with a \<open>number\<close> and a \<open>journal\<close> shows the journal as its venue; the
  text \<open>Tech. Report, 7\<close> is nowhere in it.
\<close>

theorem techreport_in_journal:
  \<open>map_of [(''ENTRYTYPE'', ''techreport''), (''title'', ''T''), (''number'', ''7''), (''journal'', ''J''), (''year'', ''2020'')]
      ''ENTRYTYPE'' = Some ''techreport''
   \<and> map_of [(''ENTRYTYPE'', ''techreport''), (''title'', ''T''), (''number'', ''7''), (''journal'', ''J''), (''year'', ''2020'')]
      ''number'' = Some ''7''
   \<and> get_bib_entry_as_html
        [(''ENTRYTYPE'', ''techreport''), (''title'', ''T''), (''number'', ''7''), (''journal'', ''J''), (''year'', ''2020'')]
      = Inr (''\<newline><li>\<newline><span class="title"><i>"T"</i></span>,\<newline>''
             @ ''<span class="publisher">J</span>, <span class="year">2020</span>.\<newline>''
             @ ''\<newline></li>\<newline><br>\<newline>'')\<close>
  by (simp add: get_bib_entry_as_html_def entry_fragments_def format_title_or_chapter_def
      format_publisher_def format_volume_pages_notes_def get_link_def lookup_def has_def
      span_def list_insert_def)

lemma summary_without_number:
  assumes "map_of entry ''ENTRYTYPE'' = Some ''techreport''"
  shows "format_volume_pages_notes entry = format_volume_pages_notes (AList.delete ''number'' entry)"
  using assms
  by (simp add: format_volume_pages_notes_def has_def lookup_def delete_conv'
      split: option.splits)

text \<open>
  C5, amended: for every entry of type \<open>techreport\<close> with a \<open>number\<close> field and none of the
  fields \<open>journal\<close>, \<open>booktitle\<close> and \<open>eprint\<close>, which come first in the choice of the venue,
  the venue line is \<open>Tech. Report, <number>\<close>, the summary line is that of the entry without
  its \<open>number\<close>, and the rendered entry shows the venue line after the title.
\<close>

theorem techreport_number:
  assumes "map_of entry ''ENTRYTYPE'' = Some ''techreport''"
    and "map_of entry ''number'' = Some number"
    and "map_of entry ''journal'' = None" and "map_of entry ''booktitle'' = None"
    and "map_of entry ''eprint'' = None"
  shows \<open>format_publisher entry = Inr (''Tech. Report, '' @ number)
    \<and> format_volume_pages_notes entry = format_volume_pages_notes (AList.delete ''number'' entry)
    \<and> get_bib_entry_as_html entry =
        and_then (format_title_or_chapter entry) (\<lambda>title_html.
        and_then (format_volume_pages_notes (AList.delete ''number'' entry)) (\<lambda>vp.
        and_then (lookup entry ''year'') (\<lambda>year.
          Inr (wrap_entry (spec_link entry)
            ((case map_of entry ''author'' of
                None \<Rightarrow> []
              | Some author \<Rightarrow> span ''author'' (author @ '','') @ ''\<newline>'')
             @ title_html @ '',\<newline>'' @ ''Tech. Report, '' @ number
             @ (if vp \<noteq> [] then '', '' @ vp else [])
             @ '', '' @ span ''year'' year @ ''.\<newline>'')))))\<close>
proof (intro conjI)
  show p: "format_publisher entry = Inr (''Tech. Report, '' @ number)"
    using assms by (simp add: format_publisher_def has_def lookup_def)
  show vp: "format_volume_pages_notes entry
      = format_volume_pages_notes (AList.delete ''number'' entry)"
    using assms(1) by (rule summary_without_number)
  show \<open>get_bib_entry_as_html entry =
        and_then (format_title_or_chapter entry) (\<lambda>title_html.
        and_then (format_volume_pages_notes (AList.delete ''number'' entry)) (\<lambda>vp.
        and_then (lookup entry ''year'') (\<lambda>year.
          Inr (wrap_entry (spec_link entry)
            ((case map_of entry ''author'' of
                None \<Rightarrow> []
              | Some author \<Rightarrow> span ''author'' (author @ '','') @ ''\<newline>'')
             @ title_html @ '',\<newline>'' @ ''Tech. Report, '' @ number
             @ (if vp \<noteq> [] then '', '' @ vp else [])
             @ '', '' @ span ''year'' year @ ''.\<newline>'')))))\<close>
    unfolding html_wrap entry_body_def entry_fragments_def p vp
    by (cases "format_title_or_chapter entry";
        cases "format_volume_pages_notes (AList.delete ''number'' entry)";
        cases "lookup entry ''year''")
      (auto simp: has_def lookup_def Let_def split: option.splits)
qed

theorem techreport_number_witness:
  \<open>map_of [(''ENTRYTYPE'', ''techreport''), (''title'', ''T''), (''number'', ''7''), (''volume'', ''3''), (''year'', ''2020'')]
      ''ENTRYTYPE'' = Some ''techreport''
   \<and> map_of [(''ENTRYTYPE'', ''techreport''), (''title'', ''T''), (''number'', ''7''), (''volume'', ''3''), (''year'', ''2020'')]
      ''number'' = Some ''7''
   \<and> map_of [(''ENTRYTYPE'', ''techreport''), (''title'', ''T''), (''number'', ''7''), (''volume'', ''3''), (''year'', ''2020'')]
      ''journal'' = None
   \<and> map_of [(''ENTRYTYPE'', ''techreport''), (''title'', ''T''), (''number'', ''7''), (''volume'', ''3''), (''year'', ''2020'')]
      ''booktitle'' = None
   \<and> map_of [(''ENTRYTYPE'', ''techreport''), (''title'', ''T''), (''number'', ''7''), (''volume'', ''3''), (''year'', ''2020'')]
      ''eprint'' = None
   \<and> get_bib_entry_as_html
        [(''ENTRYTYPE'', ''techreport''), (''title'', ''T''), (''number'', ''7''), (''volume'', ''3''), (''year'', ''2020'')]
      = Inr (''\<newline><li>\<newline><span class="title"><i>"T"</i></span>,\<newline>''
             @ ''Tech. Report, 7, vol. 3, <span class="year">2020</span>.\<newline>''
             @ ''\<newline></li>\<newline><br>\<newline>'')\<close>
  using techreport_number
    [of "[(''ENTRYTYPE'', ''techreport''), (''title'', ''T''), (''number'', ''7''), (''volume'', ''3''), (''year'', ''2020'')]" "''7''"]
  by (simp add: format_title_or_chapter_def format_volume_pages_notes_def lookup_def has_def
      spec_link_def wrap_entry_def span_def AList.delete_eq)

subsection \<open>The sort key\<close>

text \<open>
  On a year of decimal digits, no more of them than \<^verbatim>\<open>int\<close> converts, the key holds the
  number the year denotes, and on a year that \<^verbatim>\<open>isdigit()\<close> rejects (the empty string among
  them) it holds \<open>\<infinity>\<close>; the second component is the position of the entry type in the
  priority list, or \<open>\<infinity>\<close>.
\<close>

lemma py_int_decimal:
  "s \<noteq> [] \<Longrightarrow> list_all is_decimal_char s \<Longrightarrow> length s \<le> int_max_str_digits \<Longrightarrow>
     py_int s = Inr (foldl (\<lambda>n c. 10 * n + digit_value c) 0 s)"
  by (simp add: py_int_def)

lemma str_isdigit_decimal: "s \<noteq> [] \<Longrightarrow> list_all is_decimal_char s \<Longrightarrow> str_isdigit s"
  by (simp add: str_isdigit_def is_digit_char_def list_all_iff)

lemma sort_key_decimal_year:
  assumes "map_of entry ''year'' = Some year" and "map_of entry ''ENTRYTYPE'' = Some entrytype"
    and "year \<noteq> []" and "list_all is_decimal_char year"
    and "length year \<le> int_max_str_digits"
  shows "sort_key_entry entry =
    Inr (enat (foldl (\<lambda>n c. 10 * n + digit_value c) 0 year),
         if entrytype \<in> set BIBTYPE_PRIORITY
         then enat (list_index BIBTYPE_PRIORITY entrytype) else \<infinity>)"
  using assms
  by (simp add: sort_key_entry_def lookup_Some py_int_decimal str_isdigit_decimal)

lemma sort_key_no_digit_year:
  assumes "map_of entry ''year'' = Some year" and "map_of entry ''ENTRYTYPE'' = Some entrytype"
    and "\<not> str_isdigit year"
  shows "sort_key_entry entry =
    Inr (\<infinity>, if entrytype \<in> set BIBTYPE_PRIORITY
             then enat (list_index BIBTYPE_PRIORITY entrytype) else \<infinity>)"
  using assms by (simp add: sort_key_entry_def lookup_Some)

text \<open>
  C2: \<^verbatim>\<open>sort_key\<close> is to return a pair for every entry with a \<open>year\<close> and an \<open>ENTRYTYPE\<close>,
  with \<open>\<infinity>\<close> for a year that is not a number. On the year \<open>\<^sup>2\<close> (the one character
  U+00B2) it returns nothing: \<^verbatim>\<open>isdigit()\<close> accepts the superscript, and \<^verbatim>\<open>int()\<close> then raises
  \<^verbatim>\<open>ValueError\<close>.
\<close>

theorem sort_key_superscript_year:
  "sort_key_entry [(''year'', [CHR 0xB2]), (''ENTRYTYPE'', ''article'')] = Inl ValueError"
  by (simp add: sort_key_entry_def lookup_def str_isdigit_def is_digit_char_def
      is_decimal_char_def py_int_def)

subsection \<open>The generic treatment of a value\<close>

text \<open>
  C8: \<^verbatim>\<open>clean_entry\<close> gives every field value the generic treatment of the specification:
  whitespace trimmed, the sequences of the fixed table replaced in the order of the table,
  the characters \<open>{\<close>, \<open>}\<close> and the double quote removed, and one comma dropped from the end
  if there is one, so that of two commas at the end one stays. The values of the author
  fields and of \<open>pages\<close> then go through their own rewriting.
\<close>

theorem generic_cleaning:
  assumes "distinct (map fst entry)"
  shows "clean_entry entry =
      map (\<lambda>(k, v). (k, (if k = ''pages'' then fix_pages else id)
                          ((if author_key k then fix_author else id) (spec_clean_value v)))) entry
    \<and> spec_drop_one_comma (w @ '',,'') = w @ '',''"
  using assms by (simp add: clean_entry_map clean_value_spec spec_drop_one_comma_def butlast_append)

theorem generic_cleaning_witness:
  "distinct (map fst [(''title'', '' {T}~x,, ''), (''note'', backslash # ''AE '' @ [dquote])])
   \<and> clean_entry [(''title'', '' {T}~x,, ''), (''note'', backslash # ''AE '' @ [dquote])]
       = [(''title'', ''T x,''), (''note'', [CHR 0xC6, CHR '' ''])]
   \<and> spec_drop_one_comma (''a'' @ '',,'') = ''a'' @ '',''"
proof -
  have d: "distinct (map fst [(''title'', '' {T}~x,, ''), (''note'', backslash # ''AE '' @ [dquote])])"
    by simp
  have t: "spec_clean_value '' {T}~x,, '' = ''T x,''" by code_simp
  have n: "spec_clean_value (backslash # ''AE '' @ [dquote]) = [CHR 0xC6, CHR '' '']" by code_simp
  from generic_cleaning [OF d, of "''a''"] d t n show ?thesis
    by (simp add: author_key_def)
qed

subsection \<open>Authors\<close>

text \<open>The example of the specification.\<close>

lemma author_example:
  "clean_entry [(''author'', ''Smith, John and Doe, Jane'')] = [(''author'', ''John Smith, Jane Doe'')]"
  by code_simp

text \<open>
  C3: the cleaner is to rewrite each name \<open>Surname, First\<close> as \<open>First Surname\<close>. It looks for
  the comma in the first word of the name only, so a surname of two words stays where it
  is, and the list reads as three names.
\<close>

theorem author_two_word_surname:
  "clean_entry [(''author'', ''de Vries, Hans and Doe, Jane'')]
     = [(''author'', ''de Vries, Hans, Jane Doe'')]"
  by code_simp

subsection \<open>Cleaning twice\<close>

text \<open>
  A second cleaning changes what the first one left: a second comma goes from the end; the
  blank that replaced a tilde at the start is trimmed; the braces that kept an escape from
  matching are gone, and it matches; the second of two authors moves before a first author
  of one word; an \<open>and\<close> that the first pass moved between two words splits the name; a
  \<open>&nbsp;\<close> that the first pass put together becomes a blank.
\<close>

theorem cleaning_twice_differs:
  "clean_entry [(''title'', ''a,,'')] = [(''title'', ''a,'')]
   \<and> clean_entry [(''title'', ''a,'')] = [(''title'', ''a'')]
   \<and> clean_entry [(''title'', ''~a'')] = [(''title'', '' a'')]
   \<and> clean_entry [(''title'', '' a'')] = [(''title'', ''a'')]
   \<and> clean_entry [(''title'', backslash # ''{o}'')] = [(''title'', backslash # ''o'')]
   \<and> clean_entry [(''title'', backslash # ''o'')] = [(''title'', [CHR 0xF8])]
   \<and> clean_entry [(''author'', ''Plato and Jane Doe'')] = [(''author'', ''Plato, Jane Doe'')]
   \<and> clean_entry [(''author'', ''Plato, Jane Doe'')] = [(''author'', ''Jane Doe Plato'')]
   \<and> clean_entry [(''author'', ''Smith, John and'')] = [(''author'', ''John and Smith'')]
   \<and> clean_entry [(''author'', ''John and Smith'')] = [(''author'', ''John, Smith'')]
   \<and> clean_entry [(''author'', ''&nb,sp; x'')] = [(''author'', ''x &nbsp;'')]
   \<and> clean_entry [(''author'', ''x &nbsp;'')] = [(''author'', ''x  '')]"
  by code_simp

text \<open>
  C1, amended: the replacement step is idempotent on every string, as no output of the table
  lets a pattern of the table match; and applying \<^verbatim>\<open>clean_entry\<close> twice gives the same entry
  as applying it once whenever each value of the entry cleaned once neither begins nor ends
  with whitespace, does not end with a comma, holds no sequence of the table and, in an
  author field, holds neither \<open>" and "\<close> nor \<open>"&nbsp;"\<close> and has no comma in its first word.
\<close>

theorem cleaning_settled_idempotent:
  assumes "distinct (map fst entry)"
    and "\<forall>(k, w) \<in> set (clean_entry entry). settled k w"
  shows "clean_entry (clean_entry entry) = clean_entry entry
    \<and> replace_special (replace_special s) = replace_special s"
proof
  let ?f = "\<lambda>(k, v). (k, clean_value k v)"
  have c: "clean_entry entry = map ?f entry" using assms(1) by (rule clean_entry_map)
  have "fst \<circ> ?f = fst" by (auto simp: fun_eq_iff)
  with assms(1) have "distinct (map fst (map ?f entry))" by simp
  then have "clean_entry (map ?f entry) = map ?f (map ?f entry)" by (rule clean_entry_map)
  also have "\<dots> = map ?f entry"
  proof -
    have "?f (?f kv) = ?f kv" if "kv \<in> set entry" for kv
    proof -
      obtain k v where kv: "kv = (k, v)" by (cases kv)
      with that have "(k, clean_value k v) \<in> set (map ?f entry)" by force
      with assms(2) c have "settled k (clean_value k v)" by auto
      then show ?thesis using kv by (simp add: clean_value_twice)
    qed
    then show ?thesis by simp
  qed
  finally show "clean_entry (clean_entry entry) = clean_entry entry" using c by simp
  show "replace_special (replace_special s) = replace_special s" by (rule replace_special_idem)
qed

theorem cleaning_settled_idempotent_witness:
  "distinct (map fst
      [(''title'', ''Pseudo-{B}oolean by Andr'' @ [backslash, squote] @ ''e S'' @ [backslash] @ ''orensen''),
       (''author'', ''Smith, John and Doe, Jane''), (''pages'', ''1--2'')])
   \<and> clean_entry
      [(''title'', ''Pseudo-{B}oolean by Andr'' @ [backslash, squote] @ ''e S'' @ [backslash] @ ''orensen''),
       (''author'', ''Smith, John and Doe, Jane''), (''pages'', ''1--2'')]
     = [(''title'', ''Pseudo-Boolean by Andr&eacute; S'' @ [CHR 0xF8] @ ''rensen''),
        (''author'', ''John Smith, Jane Doe''), (''pages'', ''1&ndash;2'')]
   \<and> settled ''title'' (''Pseudo-Boolean by Andr&eacute; S'' @ [CHR 0xF8] @ ''rensen'')
   \<and> settled ''author'' ''John Smith, Jane Doe''
   \<and> settled ''pages'' ''1&ndash;2''
   \<and> clean_entry (clean_entry
      [(''title'', ''Pseudo-{B}oolean by Andr'' @ [backslash, squote] @ ''e S'' @ [backslash] @ ''orensen''),
       (''author'', ''Smith, John and Doe, Jane''), (''pages'', ''1--2'')])
     = clean_entry
      [(''title'', ''Pseudo-{B}oolean by Andr'' @ [backslash, squote] @ ''e S'' @ [backslash] @ ''orensen''),
       (''author'', ''Smith, John and Doe, Jane''), (''pages'', ''1--2'')]"
proof -
  let ?e = "[(''title'', ''Pseudo-{B}oolean by Andr'' @ [backslash, squote] @ ''e S'' @ [backslash] @ ''orensen''),
       (''author'', ''Smith, John and Doe, Jane''), (''pages'', ''1--2'')]"
  have d: "distinct (map fst ?e)" by simp
  have v: "clean_entry ?e
     = [(''title'', ''Pseudo-Boolean by Andr&eacute; S'' @ [CHR 0xF8] @ ''rensen''),
        (''author'', ''John Smith, Jane Doe''), (''pages'', ''1&ndash;2'')]" by code_simp
  have t: "settled ''title'' (''Pseudo-Boolean by Andr&eacute; S'' @ [CHR 0xF8] @ ''rensen'')"
    by code_simp
  have a: "settled ''author'' ''John Smith, Jane Doe''" by code_simp
  have p: "settled ''pages'' ''1&ndash;2''" by code_simp
  from t a p have h: "\<forall>(k, w) \<in> set (clean_entry ?e). settled k w"
    by (simp only: v) simp
  from cleaning_settled_idempotent [OF d h] d v t a p show ?thesis by blast
qed


end
